theory Spec2Isabelle
  imports Main "HOL-Library.Word"
begin

section \<open>The arena: bytes, headers and the allocator record\<close>

text \<open>
  The allocator of \<^verbatim>\<open>myalloc.c\<close> keeps one global \<^verbatim>\<open>struct Myalloc\<close>, two singly
  linked lists of \<^verbatim>\<open>struct nodeStruct\<close> (\<^verbatim>\<open>list.c\<close>) and one byte buffer. The model
  passes the struct explicitly. Addresses are integers, the bytes of the process are a
  total function from addresses to 8-bit words, and a linked list is the list of the
  \<^verbatim>\<open>block\<close> fields of its nodes in traversal order; a node pointer is the position of
  the node in that list, \<^verbatim>\<open>NULL\<close> is \<open>None\<close>. C \<^verbatim>\<open>int\<close> values are \<open>int\<close>: every size
  the allocator computes is a sum of a few header reads, each at most 128. \<^verbatim>\<open>char\<close> is
  the signed 8-bit type of the usual x86-64 ABI, and a \<^verbatim>\<open>size_t\<close> is stored in 8 bytes,
  least significant byte first. The mutex is left out: the model is sequential.
\<close>

type_synonym addr = int
type_synonym byte = "8 word"
type_synonym heap = "addr \<Rightarrow> byte"

datatype allocation_algorithm = FIRST_FIT | BEST_FIT | WORST_FIT

datatype error = AssertionFailure | MallocFailure | NullDereference | UninitializedRead

abbreviation HEADER_SIZE :: int where
  "HEADER_SIZE \<equiv> 8"

record Myalloc =
  aalgorithm :: allocation_algorithm
  arena_size :: int
  memory :: addr
  free_list :: "addr list"
  allocated_list :: "addr list"
  stat_available_memory :: int
  stat_used_memory :: int
  mem :: heap

text \<open>\<^verbatim>\<open>*((char* )block - HEADER_SIZE)\<close> read as an \<^verbatim>\<open>int\<close>, and the same under \<^verbatim>\<open>abs\<close>.\<close>

definition header_raw :: "heap \<Rightarrow> addr \<Rightarrow> int" where
  "header_raw h block = sint (h (block - HEADER_SIZE))"

definition header_abs :: "heap \<Rightarrow> addr \<Rightarrow> int" where
  "header_abs h block = \<bar>header_raw h block\<bar>"

text \<open>\<^verbatim>\<open>*((char* )block - HEADER_SIZE) = v\<close>: one byte is stored, the value converted to \<^verbatim>\<open>char\<close>.\<close>

definition store_header_char :: "heap \<Rightarrow> addr \<Rightarrow> int \<Rightarrow> heap" where
  "store_header_char h block v = h(block - HEADER_SIZE := word_of_int v)"

text \<open>\<^verbatim>\<open>*((size_t* )((char* )block - HEADER_SIZE)) = (size_t)v\<close>: all eight bytes are stored.\<close>

definition store_header_size_t :: "heap \<Rightarrow> addr \<Rightarrow> int \<Rightarrow> heap" where
  "store_header_size_t h block v =
     (\<lambda>a. if block - HEADER_SIZE \<le> a \<and> a < block
          then word_of_int (v div 256 ^ nat (a - (block - HEADER_SIZE))) else h a)"

definition memset0 :: "heap \<Rightarrow> addr \<Rightarrow> int \<Rightarrow> heap" where
  "memset0 h p n = (\<lambda>a. if p \<le> a \<and> a < p + n then 0 else h a)"

definition memmove :: "heap \<Rightarrow> addr \<Rightarrow> addr \<Rightarrow> int \<Rightarrow> heap" where
  "memmove h dest src n = (\<lambda>a. if dest \<le> a \<and> a < dest + n then h (src + (a - dest)) else h a)"

section \<open>The linked list of \<^verbatim>\<open>list.c\<close>\<close>

fun List_findNode :: "addr list \<Rightarrow> addr \<Rightarrow> nat option" where
  "List_findNode [] block = None"
| "List_findNode (b # rest) block =
     (if b = block then Some 0 else map_option Suc (List_findNode rest block))"

definition List_countNodes :: "addr list \<Rightarrow> int" where
  "List_countNodes head = int (length head)"

text \<open>
  \<^verbatim>\<open>List_insertHead\<close> with a freshly created node: an empty list takes the node, a list
  that already holds the block is left as it is, any other list gets the node in front.
\<close>

definition List_insertHead :: "addr list \<Rightarrow> addr \<Rightarrow> addr list" where
  "List_insertHead head block =
     (if head = [] then [block]
      else if List_findNode head block \<noteq> None then head
      else block # head)"

text \<open>
  \<^verbatim>\<open>List_deleteNode\<close>: a list of one node is emptied whatever \<^verbatim>\<open>node\<close> is; the head is
  unlinked when it is the node; otherwise the list is walked to the node's predecessor
  and the node is unlinked. With \<^verbatim>\<open>node == NULL\<close> and a list of another length the code
  dereferences a null pointer (\<^verbatim>\<open>( *headRef)->next\<close> on the empty list, \<^verbatim>\<open>node->next\<close>
  otherwise).
\<close>

definition List_deleteNode :: "addr list \<Rightarrow> nat option \<Rightarrow> error + addr list" where
  "List_deleteNode head node =
     (if List_countNodes head = 1 then Inr []
      else case node of
        None \<Rightarrow> Inl NullDereference
      | Some i \<Rightarrow> if i < length head then Inr (take i head @ drop (Suc i) head)
                  else Inl NullDereference)"

section \<open>Statistics\<close>

fun sum_sizes :: "heap \<Rightarrow> addr list \<Rightarrow> int \<Rightarrow> int" where
  "sum_sizes h [] acc = acc"
| "sum_sizes h (block # rest) acc = sum_sizes h rest (acc + header_abs h block)"

definition available_memory :: "Myalloc \<Rightarrow> int" where
  "available_memory s = sum_sizes (mem s) (free_list s) 0"

definition used_memory :: "Myalloc \<Rightarrow> int" where
  "used_memory s = sum_sizes (mem s) (allocated_list s) 0"

definition update_statistics :: "Myalloc \<Rightarrow> Myalloc" where
  "update_statistics s =
     s\<lparr>stat_available_memory := available_memory s, stat_used_memory := used_memory s\<rparr>"

section \<open>\<^verbatim>\<open>initialize_allocator\<close>\<close>

text \<open>
  The bytes of the process before the call and the result of \<^verbatim>\<open>malloc\<close> are parameters;
  a failed \<^verbatim>\<open>malloc\<close> ends the process.
\<close>

definition initialize_allocator ::
  "heap \<Rightarrow> addr option \<Rightarrow> int \<Rightarrow> allocation_algorithm \<Rightarrow> error + Myalloc" where
  "initialize_allocator h0 malloc_result sz alg =
     (if \<not> sz > 0 then Inl AssertionFailure
      else
        let rounded_size = ((sz + 63) div 64) * 64;
            total_size = rounded_size + HEADER_SIZE
        in case malloc_result of
             None \<Rightarrow> Inl MallocFailure
           | Some ptr \<Rightarrow>
               let h1 = memset0 h0 ptr total_size;
                   m = ptr + HEADER_SIZE;
                   h2 = store_header_size_t h1 m rounded_size
               in Inr \<lparr>aalgorithm = alg, arena_size = rounded_size, memory = m,
                       free_list = [m], allocated_list = [],
                       stat_available_memory = rounded_size, stat_used_memory = 0,
                       mem = h2\<rparr>)"

section \<open>\<^verbatim>\<open>allocate\<close>\<close>

text \<open>The three search loops of the \<^verbatim>\<open>switch\<close>; \<open>ptr\<close> is \<open>None\<close> while it is \<^verbatim>\<open>NULL\<close>.\<close>

fun first_fit :: "heap \<Rightarrow> int \<Rightarrow> addr list \<Rightarrow> addr option" where
  "first_fit h sz [] = None"
| "first_fit h sz (block # rest) =
     (let curr_free_size = header_abs h block
      in if curr_free_size \<ge> sz then Some block else first_fit h sz rest)"

fun best_fit :: "heap \<Rightarrow> int \<Rightarrow> addr list \<Rightarrow> addr option \<Rightarrow> addr option" where
  "best_fit h sz [] ptr = ptr"
| "best_fit h sz (block # rest) ptr =
     (let curr_free_size = header_abs h block
      in best_fit h sz rest
           (if curr_free_size \<ge> sz
            then (case ptr of
                    None \<Rightarrow> Some block
                  | Some p \<Rightarrow> if curr_free_size < header_raw h p then Some block else ptr)
            else ptr))"

fun worst_fit :: "heap \<Rightarrow> int \<Rightarrow> addr list \<Rightarrow> addr option \<Rightarrow> addr option" where
  "worst_fit h sz [] ptr = ptr"
| "worst_fit h sz (block # rest) ptr =
     (let curr_free_size = header_abs h block
      in worst_fit h sz rest
           (if curr_free_size \<ge> sz
            then (case ptr of
                    None \<Rightarrow> Some block
                  | Some p \<Rightarrow> if curr_free_size > header_raw h p then Some block else ptr)
            else ptr))"

definition find_chunk :: "allocation_algorithm \<Rightarrow> heap \<Rightarrow> int \<Rightarrow> addr list \<Rightarrow> addr option" where
  "find_chunk alg h sz nodes =
     (case alg of
        FIRST_FIT \<Rightarrow> first_fit h sz nodes
      | BEST_FIT \<Rightarrow> best_fit h sz nodes None
      | WORST_FIT \<Rightarrow> worst_fit h sz nodes None)"

definition allocate :: "Myalloc \<Rightarrow> int \<Rightarrow> error + (addr option \<times> Myalloc)" where
  "allocate s sz =
     (if \<not> sz > 0 then Inl AssertionFailure
      else if free_list s = [] then Inr (None, s)
      else case find_chunk (aalgorithm s) (mem s) sz (free_list s) of
        None \<Rightarrow> Inr (None, s)
      | Some ptr \<Rightarrow>
          let al = List_insertHead (allocated_list s) ptr;
              ptr_free_size = header_abs (mem s) ptr;
              leftover_free_space = ptr_free_size - sz
          in if leftover_free_space > 8 then
               (let h1 = store_header_char (mem s) ptr sz
                in case List_findNode (free_list s) ptr of
                     None \<Rightarrow> Inl NullDereference
                   | Some chunk_free \<Rightarrow>
                       let block = ptr + sz + HEADER_SIZE;
                           fl = (free_list s)[chunk_free := block];
                           h2 = store_header_char h1 block (leftover_free_space - HEADER_SIZE)
                       in Inr (Some ptr,
                               update_statistics
                                 (s\<lparr>free_list := fl, allocated_list := al, mem := h2\<rparr>)))
             else
               (case List_deleteNode (free_list s) (List_findNode (free_list s) ptr) of
                  Inl e \<Rightarrow> Inl e
                | Inr fl \<Rightarrow>
                    Inr (Some ptr,
                         update_statistics (s\<lparr>free_list := fl, allocated_list := al\<rparr>))))"

section \<open>\<^verbatim>\<open>deallocate\<close>\<close>

text \<open>
  The first \<^verbatim>\<open>while (curr)\<close> loop looks for a free chunk directly to the right of
  \<^verbatim>\<open>_ptr\<close>. It returns the node it stops at, or, when it runs off the list, the value
  \<^verbatim>\<open>curr\<close> is left with: the position past the last node and the nodes still ahead of
  it. The second \<^verbatim>\<open>while (curr)\<close> loop goes on from that value of \<^verbatim>\<open>curr\<close>: the code
  does not set \<^verbatim>\<open>curr\<close> back to the head of the list between the two loops.
\<close>

fun dealloc_right_loop ::
  "addr \<Rightarrow> int \<Rightarrow> nat \<Rightarrow> addr list \<Rightarrow> (nat \<times> addr) + (nat \<times> addr list)" where
  "dealloc_right_loop ptr ptr_size i [] = Inr (i, [])"
| "dealloc_right_loop ptr ptr_size i (block # rest) =
     (if block = ptr + ptr_size + HEADER_SIZE then Inl (i, block)
      else dealloc_right_loop ptr ptr_size (Suc i) rest)"

fun dealloc_left_loop :: "heap \<Rightarrow> addr \<Rightarrow> nat \<Rightarrow> addr list \<Rightarrow> (nat \<times> addr) option" where
  "dealloc_left_loop h ptr i [] = None"
| "dealloc_left_loop h ptr i (block # rest) =
     (let curr_size = header_abs h block
      in if ptr = block + curr_size + HEADER_SIZE then Some (i, block)
         else dealloc_left_loop h ptr (Suc i) rest)"

text \<open>
  \<^verbatim>\<open>NULL\<close> is address 0 for the argument of \<^verbatim>\<open>deallocate\<close>. In the left-merge branch
  the code reads \<^verbatim>\<open>curr->block\<close> after the node was freed; the model takes the value
  the node had.
\<close>

definition deallocate :: "Myalloc \<Rightarrow> addr \<Rightarrow> error + Myalloc" where
  "deallocate s ptr =
     (if ptr = 0 then Inl AssertionFailure
      else
        let ptr_size = header_abs (mem s) ptr
        in if free_list s = [] then Inr s
           else case dealloc_right_loop ptr ptr_size 0 (free_list s) of
             Inl (node, block) \<Rightarrow>
               (let h1 = store_header_char (mem s) ptr
                           (ptr_size + HEADER_SIZE + header_abs (mem s) block)
                in case List_deleteNode (free_list s) (Some node) of
                     Inl e \<Rightarrow> Inl e
                   | Inr fl \<Rightarrow>
                       Inr (update_statistics
                              (s\<lparr>free_list := List_insertHead fl ptr, mem := h1\<rparr>)))
           | Inr (i, nodes) \<Rightarrow>
               (case dealloc_left_loop (mem s) ptr i nodes of
                  Some (node, block) \<Rightarrow>
                    (let curr_size = header_abs (mem s) block;
                         h1 = store_header_char (mem s) block
                                (curr_size + HEADER_SIZE + header_abs (mem s) ptr)
                     in case List_deleteNode (free_list s) (Some node) of
                          Inl e \<Rightarrow> Inl e
                        | Inr fl \<Rightarrow>
                            Inr (update_statistics
                                   (s\<lparr>free_list := List_insertHead fl block, mem := h1\<rparr>)))
                | None \<Rightarrow>
                    (case List_deleteNode (allocated_list s)
                            (List_findNode (allocated_list s) ptr) of
                       Inl e \<Rightarrow> Inl e
                     | Inr al \<Rightarrow>
                         Inr (update_statistics
                                (s\<lparr>free_list := List_insertHead (free_list s) ptr,
                                   allocated_list := al\<rparr>)))))"

section \<open>\<^verbatim>\<open>is_fragmented\<close>\<close>

text \<open>
  The variables \<^verbatim>\<open>current\<close>, \<^verbatim>\<open>adjacent\<close> and \<^verbatim>\<open>has_adj\<close> of the pair scan. The inner
  loop has no exit: it visits every node after \<^verbatim>\<open>curr_free\<close> and each match overwrites
  the three variables. The outer loop stops once \<^verbatim>\<open>has_adj\<close> is not 0.
\<close>

record adj_scan =
  current :: "nat option"
  adjacent :: "nat option"
  has_adj :: int

fun frag_inner_loop ::
  "heap \<Rightarrow> nat \<Rightarrow> addr \<Rightarrow> int \<Rightarrow> nat \<Rightarrow> addr list \<Rightarrow> adj_scan \<Rightarrow> adj_scan" where
  "frag_inner_loop h i curr_block size_curr_free j [] st = st"
| "frag_inner_loop h i curr_block size_curr_free j (next_block # rest) st =
     (let st1 = (if next_block = curr_block + size_curr_free + HEADER_SIZE
                 then \<lparr>current = Some i, adjacent = Some j, has_adj = 2\<rparr> else st);
          size_next_free = header_abs h next_block;
          st2 = (if curr_block = next_block + size_next_free + HEADER_SIZE
                 then \<lparr>current = Some i, adjacent = Some j, has_adj = 1\<rparr> else st1)
      in frag_inner_loop h i curr_block size_curr_free (Suc j) rest st2)"

fun frag_outer_loop :: "heap \<Rightarrow> nat \<Rightarrow> addr list \<Rightarrow> adj_scan \<Rightarrow> adj_scan" where
  "frag_outer_loop h i [] st = st"
| "frag_outer_loop h i (curr_block # rest) st =
     (if has_adj st = 0
      then frag_outer_loop h (Suc i) rest
             (frag_inner_loop h i curr_block (header_abs h curr_block) (Suc i) rest st)
      else st)"

fun free_before_some_alloc :: "addr \<Rightarrow> addr list \<Rightarrow> bool" where
  "free_before_some_alloc free_block [] = False"
| "free_before_some_alloc free_block (alloc_block # rest) =
     (if free_block < alloc_block then True else free_before_some_alloc free_block rest)"

definition merge_pair :: "Myalloc \<Rightarrow> nat \<Rightarrow> nat \<Rightarrow> error + Myalloc" where
  "merge_pair s survivor absorbed =
     (let sb = free_list s ! survivor;
          ab = free_list s ! absorbed;
          new_size = header_abs (mem s) sb + HEADER_SIZE + header_abs (mem s) ab;
          h1 = store_header_char (mem s) sb new_size
      in case List_deleteNode (free_list s) (Some absorbed) of
           Inl e \<Rightarrow> Inl e
         | Inr fl \<Rightarrow> Inr (s\<lparr>free_list := fl, mem := h1\<rparr>))"

definition is_fragmented :: "Myalloc \<Rightarrow> error + (bool \<times> Myalloc)" where
  "is_fragmented s =
     (let num_free_nodes = List_countNodes (free_list s)
      in if num_free_nodes = 0 then Inr (False, s)
         else if num_free_nodes > 1 then
           (let st = frag_outer_loop (mem s) 0 (free_list s)
                       \<lparr>current = None, adjacent = None, has_adj = 0\<rparr>
            in case (current st, adjacent st) of
                 (Some c, Some a) \<Rightarrow>
                   (if has_adj st = 2 then
                      (case merge_pair s c a of Inl e \<Rightarrow> Inl e | Inr s1 \<Rightarrow> Inr (True, s1))
                    else if has_adj st = 1 then
                      (case merge_pair s a c of Inl e \<Rightarrow> Inl e | Inr s1 \<Rightarrow> Inr (True, s1))
                    else Inr (True, s))
               | _ \<Rightarrow> if has_adj st = 2 \<or> has_adj st = 1 then Inl NullDereference
                      else Inr (True, s))
         else Inr (free_before_some_alloc (hd (free_list s)) (allocated_list s), s))"

section \<open>\<^verbatim>\<open>compact_allocation\<close>\<close>

text \<open>The search for the free node with the lowest address, started at the head.\<close>

fun leftmost_free_loop :: "nat \<times> addr \<Rightarrow> nat \<Rightarrow> addr list \<Rightarrow> nat \<times> addr" where
  "leftmost_free_loop leftmost_free i [] = leftmost_free"
| "leftmost_free_loop leftmost_free i (block # rest) =
     leftmost_free_loop (if block < snd leftmost_free then (i, block) else leftmost_free)
       (Suc i) rest"

text \<open>
  The block of \<^verbatim>\<open>adjacent\<close>: the code tests the head of the allocated list only (an
  \<^verbatim>\<open>if\<close>, not a loop), so \<^verbatim>\<open>adjacent\<close> is the head when its block lies above the
  leftmost free block and \<^verbatim>\<open>NULL\<close> otherwise.
\<close>

definition find_adjacent :: "addr list \<Rightarrow> addr \<Rightarrow> addr option" where
  "find_adjacent alloc leftmost_block =
     (case alloc of
        [] \<Rightarrow> None
      | alloc_block # rest \<Rightarrow> if alloc_block > leftmost_block then Some alloc_block else None)"

text \<open>One run of the body of \<^verbatim>\<open>while (is_fragmented())\<close>; \<open>dest\<close> is \<open>None\<close> until it is assigned.\<close>

definition compact_step :: "Myalloc \<Rightarrow> addr option \<Rightarrow> error + (Myalloc \<times> addr option)" where
  "compact_step s dest =
     (case free_list s of
        [] \<Rightarrow> Inl NullDereference
      | head_block # rest \<Rightarrow>
          (let leftmost_free = leftmost_free_loop (0, head_block) 1 rest
           in (case find_adjacent (allocated_list s) (snd leftmost_free) of
                 None \<Rightarrow> Inr (s, dest)
               | Some adjacent_block \<Rightarrow>
                   (let dest1 = snd leftmost_free - HEADER_SIZE;
                        src = adjacent_block - HEADER_SIZE;
                        size_dest = abs (sint (mem s dest1));
                        size_src = abs (sint (mem s src));
                        h1 = memmove (mem s) dest1 src size_src;
                        end_where_new_free_starts = dest1 + size_src + HEADER_SIZE
                    in (case List_deleteNode (free_list s) (Some (fst leftmost_free)) of
                          Inl e \<Rightarrow> Inl e
                        | Inr fl \<Rightarrow>
                            (if List_findNode fl end_where_new_free_starts = None
                             then Inr (s\<lparr>free_list :=
                                            List_insertHead fl end_where_new_free_starts,
                                          mem := store_header_char h1
                                                   end_where_new_free_starts size_dest\<rparr>,
                                       Some dest1)
                             else Inr (s\<lparr>free_list := fl, mem := h1\<rparr>, Some dest1)))))))"

text \<open>
  The loop \<^verbatim>\<open>while (is_fragmented())\<close> need not end, so it runs on fuel: \<open>None\<close> says
  that the fuel ran out before \<^verbatim>\<open>is_fragmented\<close> returned false.
\<close>

fun compact_loop ::
  "nat \<Rightarrow> Myalloc \<Rightarrow> addr option \<Rightarrow> (error + (Myalloc \<times> addr option)) option" where
  "compact_loop 0 s dest = None"
| "compact_loop (Suc fuel) s dest =
     (case is_fragmented s of
        Inl e \<Rightarrow> Some (Inl e)
      | Inr (False, s1) \<Rightarrow> Some (Inr (s1, dest))
      | Inr (True, s1) \<Rightarrow>
          (case compact_step s1 dest of
             Inl e \<Rightarrow> Some (Inl e)
           | Inr (s2, dest2) \<Rightarrow> compact_loop fuel s2 dest2))"

text \<open>
  The final walk over the allocated list: every node gets the block \<^verbatim>\<open>dest + HEADER_SIZE\<close>,
  and a pair is kept (the counter moves on) when the block changed. The arrays are
  functions from indices to addresses.
\<close>

record compaction =
  compacted_size :: nat
  before :: "nat \<Rightarrow> addr"
  after :: "nat \<Rightarrow> addr"

fun update_alloc_loop :: "addr \<Rightarrow> addr list \<Rightarrow> compaction \<Rightarrow> addr list \<times> compaction" where
  "update_alloc_loop dest [] r = ([], r)"
| "update_alloc_loop dest (block # rest) r =
     (let b = (before r)(compacted_size r := block);
          new_block = dest + HEADER_SIZE;
          a = (after r)(compacted_size r := new_block);
          n = (if b (compacted_size r) \<noteq> a (compacted_size r)
               then Suc (compacted_size r) else compacted_size r);
          (rest1, r1) = update_alloc_loop dest rest \<lparr>compacted_size = n, before = b, after = a\<rparr>
      in (new_block # rest1, r1))"

definition compact_allocation ::
  "nat \<Rightarrow> Myalloc \<Rightarrow> (nat \<Rightarrow> addr) \<Rightarrow> (nat \<Rightarrow> addr) \<Rightarrow> (error + (compaction \<times> Myalloc)) option" where
  "compact_allocation fuel s before0 after0 =
     (let r0 = \<lparr>compacted_size = 0, before = before0, after = after0\<rparr>
      in if stat_used_memory s = 0 then Some (Inr (r0, s))
         else if stat_available_memory s = 0 then Some (Inr (r0, s))
         else if allocated_list s = [] then Some (Inr (r0, s))
         else if free_list s = [] then Some (Inr (r0, s))
         else case compact_loop fuel s None of
           None \<Rightarrow> None
         | Some (Inl e) \<Rightarrow> Some (Inl e)
         | Some (Inr (s1, dest)) \<Rightarrow>
             (case dest of
                None \<Rightarrow> Some (Inl UninitializedRead)
              | Some d \<Rightarrow>
                  let (al, r) = update_alloc_loop d (allocated_list s1) r0
                  in Some (Inr (r, update_statistics (s1\<lparr>allocated_list := al\<rparr>)))))"

section \<open>Call sequences\<close>

text \<open>A call is made on the state the call before it returned; an error ends the run.\<close>

definition and_then :: "error + 'a \<Rightarrow> ('a \<Rightarrow> error + 'b) \<Rightarrow> error + 'b" where
  "and_then r f = (case r of Inl e \<Rightarrow> Inl e | Inr x \<Rightarrow> f x)"

definition then_deallocate :: "error + Myalloc \<Rightarrow> addr \<Rightarrow> error + Myalloc" where
  "then_deallocate r ptr = and_then r (\<lambda>s. deallocate s ptr)"

definition then_allocate :: "error + Myalloc \<Rightarrow> int \<Rightarrow> error + Myalloc" where
  "then_allocate r sz = and_then r (\<lambda>s. and_then (allocate s sz) (\<lambda>(p, s1). Inr s1))"

definition then_is_fragmented :: "error + Myalloc \<Rightarrow> error + Myalloc" where
  "then_is_fragmented r = and_then r (\<lambda>s. and_then (is_fragmented s) (\<lambda>(b, s1). Inr s1))"

text \<open>
  The runs below start from \<^verbatim>\<open>initialize_allocator(64, ...)\<close> and
  \<^verbatim>\<open>initialize_allocator(128, ...)\<close> on a zeroed process image in which \<^verbatim>\<open>malloc\<close>
  returns address 1000, so that the first payload address is 1008.
\<close>

definition arena64 :: "allocation_algorithm \<Rightarrow> error + Myalloc" where
  "arena64 alg = initialize_allocator (\<lambda>a. 0) (Some 1000) 64 alg"

definition arena128 :: "allocation_algorithm \<Rightarrow> error + Myalloc" where
  "arena128 alg = initialize_allocator (\<lambda>a. 0) (Some 1000) 128 alg"

definition then_compact ::
  "nat \<Rightarrow> error + Myalloc \<Rightarrow> (error + compaction \<times> Myalloc) option" where
  "then_compact fuel r =
     (case r of
        Inl e \<Rightarrow> Some (Inl e)
      | Inr s \<Rightarrow> compact_allocation fuel s (\<lambda>i. 0) (\<lambda>i. 0))"

text \<open>The sizes the allocator reads for a list of chunks.\<close>

definition sizes :: "Myalloc \<Rightarrow> addr list \<Rightarrow> int list" where
  "sizes s nodes = map (header_abs (mem s)) nodes"

text \<open>Three chunks of 8 bytes at 1008, 1024 and 1040, and a free tail of 16 bytes at 1056.\<close>

definition three_chunks :: "error + Myalloc" where
  "three_chunks = then_allocate (then_allocate (then_allocate (arena64 FIRST_FIT) 8) 8) 8"

text \<open>
  Two chunks that use up the arena of 64 bytes: 28 bytes at 1008 and 28 bytes at 1044.
\<close>

definition two_chunks_full :: "error + Myalloc" where
  "two_chunks_full = then_allocate (then_allocate (arena64 FIRST_FIT) 28) 28"

text \<open>
  A free hole of 40 bytes at 1008 followed by one allocated chunk of 16 bytes at 1056,
  which ends the arena: \<^verbatim>\<open>a = allocate(8); b = allocate(24); deallocate(a);
  c = allocate(16); deallocate(b); is_fragmented();\<close> (the last call merges the two
  free chunks \<^verbatim>\<open>a\<close> and \<^verbatim>\<open>b\<close>).
\<close>

definition hole_then_chunk :: "error + Myalloc" where
  "hole_then_chunk =
     then_is_fragmented (then_deallocate (then_allocate (then_deallocate
       (then_allocate (then_allocate (arena64 FIRST_FIT) 8) 24) 1008) 16) 1024)"

text \<open>
  Four chunks of 4 bytes at 1008, 1020, 1032 and 1044 and a free tail at 1056; then
  1008, 1032, 1044 and 1020 are deallocated, in this order.
\<close>

definition double_neighbour :: "error + Myalloc" where
  "double_neighbour =
     then_deallocate (then_deallocate (then_deallocate (then_deallocate
       (then_allocate (then_allocate (then_allocate (then_allocate
          (arena64 FIRST_FIT) 4) 4) 4) 4) 1008) 1032) 1044) 1020"

text \<open>
  On the arena of 128 bytes: three chunks of 4 bytes at 1008, 1020 and 1032; then
  \<^verbatim>\<open>deallocate\<close> is called on 1032, 1020, 1032 and 1008. Each of these addresses is in
  the allocated list when its call is made.
\<close>

definition merged_to_128 :: "allocation_algorithm \<Rightarrow> error + Myalloc" where
  "merged_to_128 alg =
     then_deallocate (then_deallocate (then_deallocate (then_deallocate
       (then_allocate (then_allocate (then_allocate (arena128 alg) 4) 4) 4)
          1032) 1020) 1032) 1008"

text \<open>Adjacency of two chunks as the scans test it, on the sizes the headers read.\<close>

definition right_adjacent :: "heap \<Rightarrow> addr \<Rightarrow> addr \<Rightarrow> bool" where
  "right_adjacent h a b \<longleftrightarrow> b = a + header_abs h a + HEADER_SIZE"

definition mutually_adjacent :: "heap \<Rightarrow> addr \<Rightarrow> addr \<Rightarrow> bool" where
  "mutually_adjacent h a b \<longleftrightarrow> right_adjacent h a b \<or> right_adjacent h b a"

text \<open>
  What the pair scan of \<^verbatim>\<open>is_fragmented\<close> keeps true of its variables on a list of
  \<open>n\<close> nodes: \<^verbatim>\<open>has_adj\<close> is 0, or it is 1 or 2 and \<^verbatim>\<open>current\<close> and \<^verbatim>\<open>adjacent\<close> are
  nodes of the list.
\<close>

definition scan_ok :: "nat \<Rightarrow> adj_scan \<Rightarrow> bool" where
  "scan_ok n st \<longleftrightarrow>
     has_adj st = 0 \<or>
     ((has_adj st = 1 \<or> has_adj st = 2) \<and>
      (\<exists>c a. current st = Some c \<and> adjacent st = Some a \<and> c < n \<and> a < n))"

text \<open>
  What the placement strategies are to return, on the sizes the headers read: a fitting
  chunk \<open>p\<close> of the list such that every fitting chunk before it is strictly larger
  (BestFit; strictly smaller for WorstFit) and every fitting chunk after it is at least
  as large (at most as large for WorstFit).
\<close>

definition best_in :: "heap \<Rightarrow> int \<Rightarrow> addr list \<Rightarrow> addr \<Rightarrow> bool" where
  "best_in h sz nodes p \<longleftrightarrow>
     (\<exists>pre post. nodes = pre @ p # post \<and> sz \<le> header_abs h p \<and>
        (\<forall>x\<in>set pre. sz \<le> header_abs h x \<longrightarrow> header_abs h p < header_abs h x) \<and>
        (\<forall>x\<in>set post. sz \<le> header_abs h x \<longrightarrow> header_abs h p \<le> header_abs h x))"

definition worst_in :: "heap \<Rightarrow> int \<Rightarrow> addr list \<Rightarrow> addr \<Rightarrow> bool" where
  "worst_in h sz nodes p \<longleftrightarrow>
     (\<exists>pre post. nodes = pre @ p # post \<and> sz \<le> header_abs h p \<and>
        (\<forall>x\<in>set pre. sz \<le> header_abs h x \<longrightarrow> header_abs h x < header_abs h p) \<and>
        (\<forall>x\<in>set post. sz \<le> header_abs h x \<longrightarrow> header_abs h x \<le> header_abs h p))"

text \<open>
  On the arena of 64 bytes with BestFit: chunks of 4, 8 and 8 bytes at 1008, 1020 and
  1036 and a free tail of 20 bytes at 1052; then \<^verbatim>\<open>deallocate(1008)\<close>,
  \<^verbatim>\<open>deallocate(1020)\<close> and \<^verbatim>\<open>allocate(4)\<close>, which returns 1008 again.
\<close>

definition stuck_layout :: "error + Myalloc" where
  "stuck_layout =
     then_allocate (then_deallocate (then_deallocate (then_allocate (then_allocate
       (then_allocate (arena64 BEST_FIT) 4) 8) 8) 1008) 1020) 4"


section \<open>Header reads and writes\<close>

lemma sint_char_of_int: "sint (word_of_int v :: byte) = (v + 128) mod 256 - 128"
  by (simp add: int_word_sint)

lemma sint_char_small: "- 128 \<le> v \<Longrightarrow> v < 128 \<Longrightarrow> sint (word_of_int v :: byte) = v"
  by (simp add: sint_char_of_int)

lemma header_raw_bounds: "- 128 \<le> header_raw h block \<and> header_raw h block < 128"
  using sint_ge [of "h (block - 8)"] sint_lt [of "h (block - 8)"]
  by (simp add: header_raw_def)

lemma header_abs_bounds: "0 \<le> header_abs h block \<and> header_abs h block \<le> 128"
  using header_raw_bounds [of h block] by (auto simp: header_abs_def)

lemma header_abs_store_same:
  "0 \<le> v \<Longrightarrow> v < 128 \<Longrightarrow> header_abs (store_header_char h block v) block = v"
  by (simp add: header_abs_def header_raw_def store_header_char_def sint_char_small)

lemma header_abs_store_other:
  "block' \<noteq> block \<Longrightarrow> header_abs (store_header_char h block v) block' = header_abs h block'"
  by (simp add: header_abs_def header_raw_def store_header_char_def)

lemma arena64_state:
  "arena64 alg = Inr \<lparr>aalgorithm = alg, arena_size = 64, memory = 1008, free_list = [1008],
     allocated_list = [], stat_available_memory = 64, stat_used_memory = 0,
     mem = store_header_size_t (memset0 (\<lambda>a. 0) 1000 72) 1008 64\<rparr>"
  by (simp add: arena64_def initialize_allocator_def)

lemma header_abs_arena64:
  "header_abs (store_header_size_t (memset0 (\<lambda>a. 0) 1000 72) 1008 64) 1008 = 64"
  by (simp add: header_abs_def header_raw_def store_header_size_t_def)

lemma map_sum_id_eq_InrD: "map_sum id f r = Inr y \<Longrightarrow> \<exists>s. r = Inr s \<and> f s = y"
  by (cases r) auto

section \<open>The placement search\<close>

lemma first_fit_None:
  "\<forall>block\<in>set nodes. header_abs h block < sz \<Longrightarrow> first_fit h sz nodes = None"
  by (induction nodes) auto

lemma best_fit_keeps:
  "\<forall>block\<in>set nodes. header_abs h block < sz \<Longrightarrow> best_fit h sz nodes ptr = ptr"
  by (induction nodes arbitrary: ptr) auto

lemma worst_fit_keeps:
  "\<forall>block\<in>set nodes. header_abs h block < sz \<Longrightarrow> worst_fit h sz nodes ptr = ptr"
  by (induction nodes arbitrary: ptr) auto

lemma find_chunk_None:
  "\<forall>block\<in>set nodes. header_abs h block < sz \<Longrightarrow> find_chunk alg h sz nodes = None"
  by (cases alg) (simp_all add: find_chunk_def first_fit_None best_fit_keeps worst_fit_keeps)

lemma first_fit_Some:
  "first_fit h sz nodes = Some p \<Longrightarrow> p \<in> set nodes \<and> sz \<le> header_abs h p"
  by (induction nodes) (auto simp: Let_def split: if_splits)

lemma best_fit_Some:
  "best_fit h sz nodes ptr = Some p \<Longrightarrow>
     ptr = Some p \<or> (p \<in> set nodes \<and> sz \<le> header_abs h p)"
  by (induction nodes arbitrary: ptr) (fastforce simp: Let_def split: if_splits option.splits)+

lemma worst_fit_Some:
  "worst_fit h sz nodes ptr = Some p \<Longrightarrow>
     ptr = Some p \<or> (p \<in> set nodes \<and> sz \<le> header_abs h p)"
  by (induction nodes arbitrary: ptr) (fastforce simp: Let_def split: if_splits option.splits)+

lemma find_chunk_Some:
  "find_chunk alg h sz nodes = Some p \<Longrightarrow> p \<in> set nodes \<and> sz \<le> header_abs h p"
  using first_fit_Some [of h sz nodes p] best_fit_Some [of h sz nodes None p]
    worst_fit_Some [of h sz nodes None p]
  by (cases alg) (simp_all add: find_chunk_def)

lemma List_findNode_Some:
  "p \<in> set nodes \<Longrightarrow> \<exists>i. List_findNode nodes p = Some i \<and> i < length nodes \<and> nodes ! i = p"
  by (induction nodes) auto

lemma List_deleteNode_valid:
  assumes "i < length nodes"
  shows "List_deleteNode nodes (Some i) = Inr (take i nodes @ drop (Suc i) nodes)"
proof (cases "length nodes = 1")
  case True
  with assms show ?thesis by (simp add: List_deleteNode_def List_countNodes_def)
next
  case False
  with assms show ?thesis by (simp add: List_deleteNode_def List_countNodes_def)
qed

section \<open>Allocation\<close>

text \<open>
  C9. In a state where no free chunk has a size (as the allocator reads it) of at least
  the requested size, the empty Free Registry included, \<^verbatim>\<open>allocate\<close> returns \<^verbatim>\<open>NULL\<close>
  and the whole state, so both registries and both counters, is unchanged.
\<close>

theorem allocate_no_fit_returns_null_unchanged:
  assumes "0 < sz" and "\<forall>block\<in>set (free_list s). header_abs (mem s) block < sz"
  shows "allocate s sz = Inr (None, s)"
  using assms by (simp add: allocate_def find_chunk_None)

theorem allocate_no_fit_returns_null_unchanged_witness:
  "\<exists>s. arena64 BEST_FIT = Inr s \<and> free_list s = [1008] \<and> header_abs (mem s) 1008 = 64 \<and>
       allocate s 65 = Inr (None, s)"
proof -
  obtain s where s: "arena64 BEST_FIT = Inr s" and fl: "free_list s = [1008]"
    and h: "header_abs (mem s) 1008 = 64"
    by (simp add: arena64_state header_abs_arena64)
  have "allocate s 65 = Inr (None, s)"
    using allocate_no_fit_returns_null_unchanged [of 65 s] fl h by simp
  with s fl h show ?thesis by blast
qed

text \<open>
  C8. A successful \<^verbatim>\<open>allocate(size)\<close> returns the address of a chunk of the Free
  Registry whose size is at least \<^verbatim>\<open>size\<close>. With \<open>leftover = chunkSize - size\<close>: when
  \<open>leftover > 8\<close> the header at the returned address reads \<^verbatim>\<open>size\<close>, the descriptor of
  the chunk stays at its place in the Free Registry with its address advanced by
  \<open>size + 8\<close>, and its header reads \<open>leftover - 8\<close>; otherwise the descriptor is removed
  from the Free Registry and no byte of the arena changes.
\<close>

theorem allocate_split_or_consume:
  assumes "allocate s sz = Inr (Some ptr, s1)"
  shows "\<exists>chunk_free.
           List_findNode (free_list s) ptr = Some chunk_free \<and>
           chunk_free < length (free_list s) \<and> free_list s ! chunk_free = ptr \<and>
           sz \<le> header_abs (mem s) ptr \<and>
           (if header_abs (mem s) ptr - sz > 8
            then header_abs (mem s1) ptr = sz \<and>
                 free_list s1 = (free_list s)[chunk_free := ptr + sz + 8] \<and>
                 header_abs (mem s1) (ptr + sz + 8) = header_abs (mem s) ptr - sz - 8
            else free_list s1 =
                   take chunk_free (free_list s) @ drop (Suc chunk_free) (free_list s) \<and>
                 mem s1 = mem s)"
proof -
  from assms have pos: "0 < sz" and ne: "free_list s \<noteq> []"
    by (auto simp: allocate_def split: if_splits)
  from assms pos ne have fc: "find_chunk (aalgorithm s) (mem s) sz (free_list s) = Some ptr"
    by (auto simp: allocate_def Let_def split: if_splits option.splits sum.splits)
  from find_chunk_Some [OF fc] have inl: "ptr \<in> set (free_list s)"
    and fit: "sz \<le> header_abs (mem s) ptr"
    by simp_all
  from List_findNode_Some [OF inl] obtain i where
    i: "List_findNode (free_list s) ptr = Some i" "i < length (free_list s)"
       "free_list s ! i = ptr"
    by blast
  have le: "header_abs (mem s) ptr \<le> 128" using header_abs_bounds by simp
  show ?thesis
  proof (cases "header_abs (mem s) ptr - sz > 8")
    case True
    with assms pos ne fc i have s1: "s1 = update_statistics
        (s\<lparr>free_list := (free_list s)[i := ptr + sz + 8],
           allocated_list := List_insertHead (allocated_list s) ptr,
           mem := store_header_char (store_header_char (mem s) ptr sz) (ptr + sz + 8)
                    (header_abs (mem s) ptr - sz - 8)\<rparr>)"
      by (simp add: allocate_def Let_def)
    have a: "header_abs (mem s1) ptr = sz"
      using pos True le
      by (simp add: s1 update_statistics_def header_abs_store_other header_abs_store_same)
    have b: "header_abs (mem s1) (ptr + sz + 8) = header_abs (mem s) ptr - sz - 8"
      using pos True le by (simp add: s1 update_statistics_def header_abs_store_same)
    have c: "free_list s1 = (free_list s)[i := ptr + sz + 8]"
      by (simp add: s1 update_statistics_def)
    from True a b c i fit show ?thesis by simp
  next
    case False
    from False assms pos ne fc i List_deleteNode_valid [OF i(2)]
    have s1: "s1 = update_statistics
        (s\<lparr>free_list := take i (free_list s) @ drop (Suc i) (free_list s),
           allocated_list := List_insertHead (allocated_list s) ptr\<rparr>)"
      by (simp add: allocate_def Let_def)
    from False i fit show ?thesis by (simp add: s1 update_statistics_def)
  qed
qed

theorem allocate_split_or_consume_witness:
  "\<exists>s s1 s2. arena64 FIRST_FIT = Inr s \<and> free_list s = [1008] \<and>
     header_abs (mem s) 1008 = 64 \<and>
     allocate s 16 = Inr (Some 1008, s1) \<and>
     header_abs (mem s1) 1008 = 16 \<and> free_list s1 = [1032] \<and>
     header_abs (mem s1) 1032 = 40 \<and>
     allocate s 60 = Inr (Some 1008, s2) \<and> free_list s2 = [] \<and> mem s2 = mem s"
proof -
  obtain s where s: "arena64 FIRST_FIT = Inr s" and fl: "free_list s = [1008]"
    and h: "header_abs (mem s) 1008 = 64" and alg: "aalgorithm s = FIRST_FIT"
    by (simp add: arena64_state header_abs_arena64)
  obtain s1 where a1: "allocate s 16 = Inr (Some 1008, s1)"
    using fl h alg by (simp add: allocate_def find_chunk_def)
  obtain s2 where a2: "allocate s 60 = Inr (Some 1008, s2)"
    using fl h alg by (simp add: allocate_def find_chunk_def List_deleteNode_def List_countNodes_def)
  have r1: "header_abs (mem s1) 1008 = 16 \<and> free_list s1 = [1032] \<and>
      header_abs (mem s1) 1032 = 40"
    using allocate_split_or_consume [OF a1] fl h by auto
  have r2: "free_list s2 = [] \<and> mem s2 = mem s"
    using allocate_split_or_consume [OF a2] fl h by auto
  from s fl h a1 a2 r1 r2 show ?thesis by blast
qed

section \<open>Deallocation\<close>

text \<open>
  C1 (the code leaves the claim unmet). \<^verbatim>\<open>p = allocate(16)\<close> on the fresh arena of
  64 bytes puts 1008 into the Allocated Registry. \<^verbatim>\<open>deallocate(p)\<close> takes the
  right-merge branch, which returns without touching the allocated list: 1008 is in
  both registries afterwards. When the Free Registry is empty (\<^verbatim>\<open>p = allocate(64)\<close>),
  \<^verbatim>\<open>deallocate(p)\<close> returns at once and 1008 stays allocated too.
\<close>

theorem deallocate_leaves_address_allocated:
  "map_sum id allocated_list (then_allocate (arena64 FIRST_FIT) 16) = Inr [1008] \<and>
   map_sum id (\<lambda>s. (allocated_list s, free_list s))
     (then_deallocate (then_allocate (arena64 FIRST_FIT) 16) 1008) = Inr ([1008], [1008]) \<and>
   map_sum id (\<lambda>s. (allocated_list s, free_list s))
     (then_allocate (arena64 FIRST_FIT) 64) = Inr ([1008], []) \<and>
   map_sum id (\<lambda>s. (allocated_list s, free_list s))
     (then_deallocate (then_allocate (arena64 FIRST_FIT) 64) 1008) = Inr ([1008], [])"
  by code_simp

text \<open>
  C2 (the code leaves the claim unmet). With chunks of 8 bytes at 1008, 1024 and 1040
  and after \<^verbatim>\<open>deallocate(1008)\<close>, the Free Registry holds the chunk 1008 of size 8, and
  \<open>1008 + 8 + 8 = 1024\<close>; the chunk right of 1024 is the allocated 1040. The call
  \<^verbatim>\<open>deallocate(1024)\<close> does not merge: 1024 is inserted as a chunk of its own and the
  header of 1008 still reads 8, not \<open>8 + 8 + 8 = 24\<close>.
\<close>

theorem deallocate_left_neighbour_not_merged:
  "map_sum id (\<lambda>s. (free_list s, sizes s (free_list s), allocated_list s))
     (then_deallocate three_chunks 1008) = Inr ([1008, 1056], [8, 16], [1040, 1024]) \<and>
   map_sum id (\<lambda>s. (free_list s, sizes s (free_list s), allocated_list s))
     (then_deallocate (then_deallocate three_chunks 1008) 1024) =
       Inr ([1024, 1008, 1056], [8, 8, 16], [1040])"
  by code_simp

text \<open>
  C3 (the code leaves the claim unmet). After \<^verbatim>\<open>p = allocate(16); deallocate(p)\<close> on the
  arena of 64 bytes the address 1008 is in both registries, each of which reads it as
  a chunk of 64 bytes (so the two ranges are the same range), and
  \<open>used_memory + available_memory = 128\<close> exceeds the rounded capacity 64.
\<close>

theorem registries_overlap_after_right_merge:
  "map_sum id
     (\<lambda>s. (free_list s, sizes s (free_list s), allocated_list s, sizes s (allocated_list s),
           used_memory s + available_memory s, arena_size s))
     (then_deallocate (then_allocate (arena64 FIRST_FIT) 16) 1008) =
   Inr ([1008], [64], [1008], [64], 128, 64)"
  by code_simp

text \<open>
  C4 (the code leaves the claim unmet). One call \<^verbatim>\<open>allocate(64)\<close>, or the two calls
  \<^verbatim>\<open>allocate(28); allocate(28)\<close>, empty the Free Registry of the arena of 64 bytes.
  Every \<^verbatim>\<open>deallocate\<close> that follows finds the free list empty and returns at once: in
  either order the Free Registry stays empty and \<^verbatim>\<open>available_memory()\<close> is 0, not 64.
\<close>

theorem deallocate_on_exhausted_arena_frees_nothing:
  "map_sum id (\<lambda>s. (free_list s, allocated_list s))
     (then_allocate (arena64 FIRST_FIT) 64) = Inr ([], [1008]) \<and>
   map_sum id (\<lambda>s. (free_list s, available_memory s, arena_size s))
     (then_deallocate (then_allocate (arena64 FIRST_FIT) 64) 1008) = Inr ([], 0, 64) \<and>
   map_sum id (\<lambda>s. (free_list s, allocated_list s)) two_chunks_full = Inr ([], [1044, 1008]) \<and>
   map_sum id (\<lambda>s. (free_list s, available_memory s, arena_size s))
     (then_deallocate (then_deallocate two_chunks_full 1008) 1044) = Inr ([], 0, 64) \<and>
   map_sum id (\<lambda>s. (free_list s, available_memory s, arena_size s))
     (then_deallocate (then_deallocate two_chunks_full 1044) 1008) = Inr ([], 0, 64)"
  by code_simp

section \<open>Compaction\<close>

text \<open>
  C5 (the code leaves the claim unmet). On the arena of 64 bytes whose layout is a free
  hole of 40 bytes at 1008 followed by an allocated chunk of 16 bytes at 1056,
  \<^verbatim>\<open>compact_allocation\<close> returns 1 with the pair (1056, 1040), \<^verbatim>\<open>is_fragmented\<close> is
  false afterwards and one free chunk is left. But the allocated chunk ends at 1040,
  not at the first payload address 1008 of the arena, and the free chunk left at 1056
  reads 40 bytes, past the end of the arena.
\<close>

theorem compaction_does_not_reach_arena_start:
  "map_sum id
     (\<lambda>s. (memory s, free_list s, sizes s (free_list s), allocated_list s,
           sizes s (allocated_list s), stat_available_memory s, stat_used_memory s))
     hole_then_chunk = Inr (1008, [1008], [40], [1056], [16], 32, 16) \<and>
   map_option
     (map_sum id
        (\<lambda>(c, s). (compacted_size c, before c 0, after c 0, allocated_list s, free_list s,
                   sizes s (free_list s), map_sum id fst (is_fragmented s))))
     (then_compact 4 hole_then_chunk) =
   Some (Inr (1, 1056, 1040, [1040], [1056], [40], Inr False))"
  by code_simp

section \<open>Placement strategies\<close>

text \<open>
  C7 (the code leaves the claim unmet). The BestFit and WorstFit loops compare the
  size of the current chunk with \<^verbatim>\<open>*((char* )ptr - HEADER_SIZE)\<close>, the signed header
  byte of the candidate without \<^verbatim>\<open>abs\<close>. A candidate of size 128 has the header byte
  \<open>-128\<close>: BestFit never replaces it, WorstFit replaces it by any later chunk that
  fits. With the free chunks 1008 of size 128 and 1032 of size 104, in this order, and
  a request of 1 byte, BestFit returns 1008 and WorstFit returns 1032. The same on a
  free set given directly: chunks of 128 and 64 bytes, request 16.
\<close>

theorem best_and_worst_fit_compare_signed_byte:
  "map_sum id allocated_list
     (then_deallocate (then_deallocate (then_allocate (then_allocate (then_allocate
        (arena128 BEST_FIT) 4) 4) 4) 1032) 1020) = Inr [1032, 1020, 1008] \<and>
   map_sum id
     (\<lambda>s. (free_list s, sizes s (free_list s),
           find_chunk (aalgorithm s) (mem s) 1 (free_list s), map_sum id fst (allocate s 1)))
     (merged_to_128 BEST_FIT) = Inr ([1008, 1032], [128, 104], Some 1008, Inr (Some 1008)) \<and>
   map_sum id
     (\<lambda>s. (free_list s, sizes s (free_list s),
           find_chunk (aalgorithm s) (mem s) 1 (free_list s), map_sum id fst (allocate s 1)))
     (merged_to_128 WORST_FIT) = Inr ([1008, 1032], [128, 104], Some 1032, Inr (Some 1032)) \<and>
   map (header_abs ((\<lambda>a. 0)(1000 := 128, 1136 := 64))) [1008, 1144] = [128, 64] \<and>
   find_chunk BEST_FIT ((\<lambda>a. 0)(1000 := 128, 1136 := 64)) 16 [1008, 1144] = Some 1008 \<and>
   find_chunk WORST_FIT ((\<lambda>a. 0)(1000 := 128, 1136 := 64)) 16 [1008, 1144] = Some 1144"
  by code_simp

lemma header_abs_raw: "0 \<le> header_raw h p \<Longrightarrow> header_abs h p = header_raw h p"
  by (simp add: header_abs_def)

lemma best_in_snoc_new:
  assumes "best_in h sz acc p0" and "sz \<le> header_abs h b" and "header_abs h b < header_abs h p0"
  shows "best_in h sz (acc @ [b]) b"
proof -
  from assms(1) obtain pre post where d: "acc = pre @ p0 # post" "sz \<le> header_abs h p0"
    "\<forall>x\<in>set pre. sz \<le> header_abs h x \<longrightarrow> header_abs h p0 < header_abs h x"
    "\<forall>x\<in>set post. sz \<le> header_abs h x \<longrightarrow> header_abs h p0 \<le> header_abs h x"
    by (auto simp: best_in_def)
  have "\<forall>x\<in>set acc. sz \<le> header_abs h x \<longrightarrow> header_abs h b < header_abs h x"
    using d assms(3) by fastforce
  with assms(2) have "acc @ [b] = acc @ b # [] \<and> sz \<le> header_abs h b \<and>
      (\<forall>x\<in>set acc. sz \<le> header_abs h x \<longrightarrow> header_abs h b < header_abs h x) \<and>
      (\<forall>x\<in>set []. sz \<le> header_abs h x \<longrightarrow> header_abs h b \<le> header_abs h x)"
    by simp
  then show ?thesis unfolding best_in_def by blast
qed

lemma best_in_snoc_keep:
  assumes "best_in h sz acc p0" and "sz \<le> header_abs h b \<longrightarrow> header_abs h p0 \<le> header_abs h b"
  shows "best_in h sz (acc @ [b]) p0"
proof -
  from assms(1) obtain pre post where d: "acc = pre @ p0 # post" "sz \<le> header_abs h p0"
    "\<forall>x\<in>set pre. sz \<le> header_abs h x \<longrightarrow> header_abs h p0 < header_abs h x"
    "\<forall>x\<in>set post. sz \<le> header_abs h x \<longrightarrow> header_abs h p0 \<le> header_abs h x"
    by (auto simp: best_in_def)
  with assms(2) have "acc @ [b] = pre @ p0 # (post @ [b]) \<and> sz \<le> header_abs h p0 \<and>
      (\<forall>x\<in>set pre. sz \<le> header_abs h x \<longrightarrow> header_abs h p0 < header_abs h x) \<and>
      (\<forall>x\<in>set (post @ [b]). sz \<le> header_abs h x \<longrightarrow> header_abs h p0 \<le> header_abs h x)"
    by auto
  then show ?thesis unfolding best_in_def by blast
qed

lemma best_fit_from_candidate:
  assumes "best_in h sz acc p0" and "0 \<le> header_raw h p0" and "\<forall>x\<in>set nodes. 0 \<le> header_raw h x"
  shows "\<exists>p. best_fit h sz nodes (Some p0) = Some p \<and> best_in h sz (acc @ nodes) p"
  using assms
proof (induction nodes arbitrary: acc p0)
  case Nil
  then show ?case by simp
next
  case (Cons b rest)
  show ?case
  proof (cases "sz \<le> header_abs h b \<and> header_abs h b < header_abs h p0")
    case True
    then have "best_in h sz (acc @ [b]) b" using Cons.prems(1) by (simp add: best_in_snoc_new)
    from Cons.IH [OF this] Cons.prems(3)
    obtain p where "best_fit h sz rest (Some b) = Some p" "best_in h sz ((acc @ [b]) @ rest) p"
      by auto
    with True Cons.prems(2) show ?thesis by (simp add: Let_def header_abs_raw)
  next
    case False
    then have "best_in h sz (acc @ [b]) p0" using Cons.prems(1) by (intro best_in_snoc_keep) auto
    from Cons.IH [OF this Cons.prems(2)] Cons.prems(3)
    obtain p where "best_fit h sz rest (Some p0) = Some p" "best_in h sz ((acc @ [b]) @ rest) p"
      by auto
    with False Cons.prems(2) show ?thesis by (auto simp: Let_def header_abs_raw)
  qed
qed

lemma best_fit_from_start:
  assumes "\<forall>x\<in>set acc. header_abs h x < sz" and "\<forall>x\<in>set nodes. 0 \<le> header_raw h x"
    and "\<exists>x\<in>set nodes. sz \<le> header_abs h x"
  shows "\<exists>p. best_fit h sz nodes None = Some p \<and> best_in h sz (acc @ nodes) p"
  using assms
proof (induction nodes arbitrary: acc)
  case Nil
  then show ?case by simp
next
  case (Cons b rest)
  show ?case
  proof (cases "sz \<le> header_abs h b")
    case True
    with Cons.prems(1) have "acc @ [b] = acc @ b # [] \<and> sz \<le> header_abs h b \<and>
      (\<forall>x\<in>set acc. sz \<le> header_abs h x \<longrightarrow> header_abs h b < header_abs h x) \<and>
      (\<forall>x\<in>set []. sz \<le> header_abs h x \<longrightarrow> header_abs h b \<le> header_abs h x)"
      by auto
    then have "best_in h sz (acc @ [b]) b" unfolding best_in_def by blast
    from best_fit_from_candidate [OF this, of rest] Cons.prems(2)
    obtain p where "best_fit h sz rest (Some b) = Some p" "best_in h sz ((acc @ [b]) @ rest) p"
      by auto
    with True show ?thesis by (simp add: Let_def)
  next
    case False
    with Cons.prems have "\<forall>x\<in>set (acc @ [b]). header_abs h x < sz"
      "\<forall>x\<in>set rest. 0 \<le> header_raw h x" "\<exists>x\<in>set rest. sz \<le> header_abs h x"
      by auto
    from Cons.IH [OF this]
    obtain p where "best_fit h sz rest None = Some p" "best_in h sz ((acc @ [b]) @ rest) p"
      by auto
    with False show ?thesis by (simp add: Let_def)
  qed
qed

lemma worst_in_snoc_new:
  assumes "worst_in h sz acc p0" and "sz \<le> header_abs h b" and "header_abs h p0 < header_abs h b"
  shows "worst_in h sz (acc @ [b]) b"
proof -
  from assms(1) obtain pre post where d: "acc = pre @ p0 # post" "sz \<le> header_abs h p0"
    "\<forall>x\<in>set pre. sz \<le> header_abs h x \<longrightarrow> header_abs h x < header_abs h p0"
    "\<forall>x\<in>set post. sz \<le> header_abs h x \<longrightarrow> header_abs h x \<le> header_abs h p0"
    by (auto simp: worst_in_def)
  have "\<forall>x\<in>set acc. sz \<le> header_abs h x \<longrightarrow> header_abs h x < header_abs h b"
    using d assms(3) by fastforce
  with assms(2) have "acc @ [b] = acc @ b # [] \<and> sz \<le> header_abs h b \<and>
      (\<forall>x\<in>set acc. sz \<le> header_abs h x \<longrightarrow> header_abs h x < header_abs h b) \<and>
      (\<forall>x\<in>set []. sz \<le> header_abs h x \<longrightarrow> header_abs h x \<le> header_abs h b)"
    by simp
  then show ?thesis unfolding worst_in_def by blast
qed

lemma worst_in_snoc_keep:
  assumes "worst_in h sz acc p0" and "sz \<le> header_abs h b \<longrightarrow> header_abs h b \<le> header_abs h p0"
  shows "worst_in h sz (acc @ [b]) p0"
proof -
  from assms(1) obtain pre post where d: "acc = pre @ p0 # post" "sz \<le> header_abs h p0"
    "\<forall>x\<in>set pre. sz \<le> header_abs h x \<longrightarrow> header_abs h x < header_abs h p0"
    "\<forall>x\<in>set post. sz \<le> header_abs h x \<longrightarrow> header_abs h x \<le> header_abs h p0"
    by (auto simp: worst_in_def)
  with assms(2) have "acc @ [b] = pre @ p0 # (post @ [b]) \<and> sz \<le> header_abs h p0 \<and>
      (\<forall>x\<in>set pre. sz \<le> header_abs h x \<longrightarrow> header_abs h x < header_abs h p0) \<and>
      (\<forall>x\<in>set (post @ [b]). sz \<le> header_abs h x \<longrightarrow> header_abs h x \<le> header_abs h p0)"
    by auto
  then show ?thesis unfolding worst_in_def by blast
qed

lemma worst_fit_from_candidate:
  assumes "worst_in h sz acc p0" and "0 \<le> header_raw h p0" and "\<forall>x\<in>set nodes. 0 \<le> header_raw h x"
  shows "\<exists>p. worst_fit h sz nodes (Some p0) = Some p \<and> worst_in h sz (acc @ nodes) p"
  using assms
proof (induction nodes arbitrary: acc p0)
  case Nil
  then show ?case by simp
next
  case (Cons b rest)
  show ?case
  proof (cases "sz \<le> header_abs h b \<and> header_abs h p0 < header_abs h b")
    case True
    then have "worst_in h sz (acc @ [b]) b" using Cons.prems(1) by (simp add: worst_in_snoc_new)
    from Cons.IH [OF this] Cons.prems(3)
    obtain p where "worst_fit h sz rest (Some b) = Some p" "worst_in h sz ((acc @ [b]) @ rest) p"
      by auto
    with True Cons.prems(2) show ?thesis by (simp add: Let_def header_abs_raw)
  next
    case False
    then have "worst_in h sz (acc @ [b]) p0" using Cons.prems(1) by (intro worst_in_snoc_keep) auto
    from Cons.IH [OF this Cons.prems(2)] Cons.prems(3)
    obtain p where "worst_fit h sz rest (Some p0) = Some p" "worst_in h sz ((acc @ [b]) @ rest) p"
      by auto
    with False Cons.prems(2) show ?thesis by (auto simp: Let_def header_abs_raw)
  qed
qed

lemma worst_fit_from_start:
  assumes "\<forall>x\<in>set acc. header_abs h x < sz" and "\<forall>x\<in>set nodes. 0 \<le> header_raw h x"
    and "\<exists>x\<in>set nodes. sz \<le> header_abs h x"
  shows "\<exists>p. worst_fit h sz nodes None = Some p \<and> worst_in h sz (acc @ nodes) p"
  using assms
proof (induction nodes arbitrary: acc)
  case Nil
  then show ?case by simp
next
  case (Cons b rest)
  show ?case
  proof (cases "sz \<le> header_abs h b")
    case True
    with Cons.prems(1) have "acc @ [b] = acc @ b # [] \<and> sz \<le> header_abs h b \<and>
      (\<forall>x\<in>set acc. sz \<le> header_abs h x \<longrightarrow> header_abs h x < header_abs h b) \<and>
      (\<forall>x\<in>set []. sz \<le> header_abs h x \<longrightarrow> header_abs h x \<le> header_abs h b)"
      by auto
    then have "worst_in h sz (acc @ [b]) b" unfolding worst_in_def by blast
    from worst_fit_from_candidate [OF this, of rest] Cons.prems(2)
    obtain p where "worst_fit h sz rest (Some b) = Some p" "worst_in h sz ((acc @ [b]) @ rest) p"
      by auto
    with True show ?thesis by (simp add: Let_def)
  next
    case False
    with Cons.prems have "\<forall>x\<in>set (acc @ [b]). header_abs h x < sz"
      "\<forall>x\<in>set rest. 0 \<le> header_raw h x" "\<exists>x\<in>set rest. sz \<le> header_abs h x"
      by auto
    from Cons.IH [OF this]
    obtain p where "worst_fit h sz rest None = Some p" "worst_in h sz ((acc @ [b]) @ rest) p"
      by auto
    with False show ?thesis by (simp add: Let_def)
  qed
qed


lemma first_fit_Some_iff:
  "first_fit h sz nodes = Some p \<longleftrightarrow>
     (\<exists>pre post. nodes = pre @ p # post \<and> sz \<le> header_abs h p \<and>
        (\<forall>x\<in>set pre. header_abs h x < sz))"
proof (induction nodes)
  case Nil
  then show ?case by simp
next
  case (Cons b rest)
  show ?case
  proof (cases "sz \<le> header_abs h b")
    case True
    have "(\<exists>pre post. b # rest = pre @ p # post \<and> sz \<le> header_abs h p \<and>
        (\<forall>x\<in>set pre. header_abs h x < sz)) \<longleftrightarrow> b = p"
    proof
      assume "\<exists>pre post. b # rest = pre @ p # post \<and> sz \<le> header_abs h p \<and>
        (\<forall>x\<in>set pre. header_abs h x < sz)"
      then obtain pre post where d: "b # rest = pre @ p # post"
        "\<forall>x\<in>set pre. header_abs h x < sz" by blast
      with True show "b = p" by (cases pre) auto
    next
      assume "b = p"
      with True have "b # rest = [] @ p # rest \<and> sz \<le> header_abs h p \<and>
        (\<forall>x\<in>set []. header_abs h x < sz)" by simp
      then show "\<exists>pre post. b # rest = pre @ p # post \<and> sz \<le> header_abs h p \<and>
        (\<forall>x\<in>set pre. header_abs h x < sz)" by blast
    qed
    with True show ?thesis by (simp add: Let_def)
  next
    case False
    have "(\<exists>pre post. b # rest = pre @ p # post \<and> sz \<le> header_abs h p \<and>
        (\<forall>x\<in>set pre. header_abs h x < sz)) \<longleftrightarrow>
      (\<exists>pre post. rest = pre @ p # post \<and> sz \<le> header_abs h p \<and>
        (\<forall>x\<in>set pre. header_abs h x < sz))"
    proof
      assume "\<exists>pre post. b # rest = pre @ p # post \<and> sz \<le> header_abs h p \<and>
        (\<forall>x\<in>set pre. header_abs h x < sz)"
      then obtain pre post where d: "b # rest = pre @ p # post" "sz \<le> header_abs h p"
        "\<forall>x\<in>set pre. header_abs h x < sz" by blast
      with False obtain pre' where "pre = b # pre'" by (cases pre) auto
      with d have "rest = pre' @ p # post \<and> sz \<le> header_abs h p \<and>
        (\<forall>x\<in>set pre'. header_abs h x < sz)" by simp
      then show "\<exists>pre post. rest = pre @ p # post \<and> sz \<le> header_abs h p \<and>
        (\<forall>x\<in>set pre. header_abs h x < sz)" by blast
    next
      assume "\<exists>pre post. rest = pre @ p # post \<and> sz \<le> header_abs h p \<and>
        (\<forall>x\<in>set pre. header_abs h x < sz)"
      then obtain pre post where d: "rest = pre @ p # post" "sz \<le> header_abs h p"
        "\<forall>x\<in>set pre. header_abs h x < sz" by blast
      with False have "b # rest = (b # pre) @ p # post \<and> sz \<le> header_abs h p \<and>
        (\<forall>x\<in>set (b # pre). header_abs h x < sz)" by simp
      then show "\<exists>pre post. b # rest = pre @ p # post \<and> sz \<le> header_abs h p \<and>
        (\<forall>x\<in>set pre. header_abs h x < sz)" by blast
    qed
    with False Cons.IH show ?thesis by (simp add: Let_def)
  qed
qed

text \<open>
  FirstFit returns the first chunk in traversal order whose size is at least the
  requested size, and every strategy returns none when no chunk of the list fits.
\<close>

theorem first_fit_returns_first_fitting_chunk:
  "(find_chunk FIRST_FIT h sz nodes = Some p \<longleftrightarrow>
      (\<exists>pre post. nodes = pre @ p # post \<and> sz \<le> header_abs h p \<and>
         (\<forall>x\<in>set pre. header_abs h x < sz))) \<and>
   ((\<forall>x\<in>set nodes. header_abs h x < sz) \<longrightarrow> find_chunk alg h sz nodes = None)"
  by (simp add: find_chunk_def first_fit_Some_iff find_chunk_None [unfolded find_chunk_def])

theorem first_fit_returns_first_fitting_chunk_witness:
  "[1008, 1024, 1064] = [1008] @ 1024 # [1064] \<and>
   header_abs ((\<lambda>a. 0)(1000 := 8, 1016 := 32, 1056 := 16)) 1008 < 10 \<and>
   10 \<le> header_abs ((\<lambda>a. 0)(1000 := 8, 1016 := 32, 1056 := 16)) 1024 \<and>
   find_chunk FIRST_FIT ((\<lambda>a. 0)(1000 := 8, 1016 := 32, 1056 := 16)) 10 [1008, 1024, 1064] =
     Some 1024 \<and>
   find_chunk WORST_FIT ((\<lambda>a. 0)(1000 := 8, 1016 := 32, 1056 := 16)) 33 [1008, 1024, 1064] =
     None"
proof -
  let ?h = "(\<lambda>a. 0)(1000 := 8, 1016 := 32, 1056 := 16) :: heap"
  have h: "header_abs ?h 1008 = 8" "header_abs ?h 1024 = 32" "header_abs ?h 1064 = 16"
    by (simp_all add: header_abs_def header_raw_def)
  have "[1008, 1024, 1064] = [1008] @ 1024 # [1064] \<and> 10 \<le> header_abs ?h 1024 \<and>
      (\<forall>x\<in>set [1008]. header_abs ?h x < 10)"
    using h by simp
  then have "\<exists>pre post. [1008, 1024, 1064] = pre @ 1024 # post \<and> 10 \<le> header_abs ?h 1024 \<and>
      (\<forall>x\<in>set pre. header_abs ?h x < 10)"
    by blast
  with first_fit_returns_first_fitting_chunk [of ?h 10 "[1008, 1024, 1064]" 1024]
  have a: "find_chunk FIRST_FIT ?h 10 [1008, 1024, 1064] = Some 1024" by blast
  have "\<forall>x\<in>set [1008, 1024, 1064]. header_abs ?h x < 33" using h by simp
  with first_fit_returns_first_fitting_chunk [of ?h 33 "[1008, 1024, 1064]" _ WORST_FIT]
  have b: "find_chunk WORST_FIT ?h 33 [1008, 1024, 1064] = None" by blast
  from a b h show ?thesis by simp
qed

text \<open>
  On a free list whose header bytes are all between 0 and 127 and which holds a chunk
  that fits, BestFit returns the chunk with the smallest size that fits and WorstFit
  the chunk with the largest size that fits, the earliest in traversal order on ties.
\<close>

theorem best_and_worst_fit_on_nonnegative_headers:
  assumes "\<forall>x\<in>set nodes. 0 \<le> header_raw h x" and "\<exists>x\<in>set nodes. sz \<le> header_abs h x"
  shows "(\<exists>p. find_chunk BEST_FIT h sz nodes = Some p \<and> best_in h sz nodes p) \<and>
         (\<exists>p. find_chunk WORST_FIT h sz nodes = Some p \<and> worst_in h sz nodes p)"
  using best_fit_from_start [of "[]" h sz nodes] worst_fit_from_start [of "[]" h sz nodes] assms
  by (simp add: find_chunk_def)

theorem best_and_worst_fit_on_nonnegative_headers_witness:
  "header_raw ((\<lambda>a. 0)(1000 := 8, 1016 := 32, 1056 := 16)) 1008 = 8 \<and>
   header_raw ((\<lambda>a. 0)(1000 := 8, 1016 := 32, 1056 := 16)) 1024 = 32 \<and>
   header_raw ((\<lambda>a. 0)(1000 := 8, 1016 := 32, 1056 := 16)) 1064 = 16 \<and>
   find_chunk BEST_FIT ((\<lambda>a. 0)(1000 := 8, 1016 := 32, 1056 := 16)) 10 [1008, 1024, 1064] =
     Some 1064 \<and>
   best_in ((\<lambda>a. 0)(1000 := 8, 1016 := 32, 1056 := 16)) 10 [1008, 1024, 1064] 1064 \<and>
   find_chunk WORST_FIT ((\<lambda>a. 0)(1000 := 8, 1016 := 32, 1056 := 16)) 10 [1008, 1024, 1064] =
     Some 1024 \<and>
   worst_in ((\<lambda>a. 0)(1000 := 8, 1016 := 32, 1056 := 16)) 10 [1008, 1024, 1064] 1024"
proof -
  let ?h = "(\<lambda>a. 0)(1000 := 8, 1016 := 32, 1056 := 16) :: heap"
  have r: "header_raw ?h 1008 = 8" "header_raw ?h 1024 = 32" "header_raw ?h 1064 = 16"
    by (simp_all add: header_raw_def)
  then have h: "header_abs ?h 1008 = 8" "header_abs ?h 1024 = 32" "header_abs ?h 1064 = 16"
    by (simp_all add: header_abs_def)
  have b: "find_chunk BEST_FIT ?h 10 [1008, 1024, 1064] = Some 1064"
    and w: "find_chunk WORST_FIT ?h 10 [1008, 1024, 1064] = Some 1024"
    using r h by (simp_all add: find_chunk_def)
  have "(\<exists>p. find_chunk BEST_FIT ?h 10 [1008, 1024, 1064] = Some p \<and>
           best_in ?h 10 [1008, 1024, 1064] p) \<and>
        (\<exists>p. find_chunk WORST_FIT ?h 10 [1008, 1024, 1064] = Some p \<and>
           worst_in ?h 10 [1008, 1024, 1064] p)"
    using r h by (intro best_and_worst_fit_on_nonnegative_headers) simp_all
  with b w r show ?thesis by simp
qed

section \<open>Fragmentation check\<close>

lemma frag_inner_loop_none:
  "\<forall>x\<in>set rest. \<not> mutually_adjacent h cb x \<Longrightarrow>
     frag_inner_loop h i cb (header_abs h cb) j rest st = st"
  by (induction rest arbitrary: j st)
     (auto simp: mutually_adjacent_def right_adjacent_def Let_def)

lemma frag_inner_loop_last:
  assumes "mutually_adjacent h cb x" and "\<forall>y\<in>set post. \<not> mutually_adjacent h cb y"
  shows "frag_inner_loop h i cb (header_abs h cb) j (pre @ x # post) st =
           \<lparr>current = Some i, adjacent = Some (j + length pre),
            has_adj = (if right_adjacent h x cb then 1 else 2)\<rparr>"
  using assms
proof (induction pre arbitrary: j st)
  case Nil
  then show ?case
    by (auto simp: frag_inner_loop_none Let_def mutually_adjacent_def right_adjacent_def)
next
  case (Cons a pre)
  then show ?case by (simp add: Let_def)
qed

lemma frag_outer_loop_stop: "has_adj st \<noteq> 0 \<Longrightarrow> frag_outer_loop h i xs st = st"
  by (cases xs) simp_all

lemma frag_outer_loop_none:
  assumes "has_adj st = 0"
    and "\<forall>p q. p < q \<and> q < length xs \<longrightarrow> \<not> mutually_adjacent h (xs ! p) (xs ! q)"
  shows "frag_outer_loop h i xs st = st"
  using assms
proof (induction xs arbitrary: i)
  case Nil
  then show ?case by simp
next
  case (Cons c rest)
  have "\<forall>x\<in>set rest. \<not> mutually_adjacent h c x"
  proof
    fix x assume "x \<in> set rest"
    then obtain k where k: "k < length rest" "rest ! k = x" by (metis in_set_conv_nth)
    from Cons.prems(2) [rule_format, of 0 "Suc k"] k show "\<not> mutually_adjacent h c x" by simp
  qed
  then have inner: "frag_inner_loop h i c (header_abs h c) (Suc i) rest st = st"
    by (rule frag_inner_loop_none)
  have "\<forall>p q. p < q \<and> q < length rest \<longrightarrow> \<not> mutually_adjacent h (rest ! p) (rest ! q)"
  proof (intro allI impI)
    fix p q assume "p < q \<and> q < length rest"
    with Cons.prems(2) [rule_format, of "Suc p" "Suc q"]
    show "\<not> mutually_adjacent h (rest ! p) (rest ! q)" by simp
  qed
  with Cons.IH [of "Suc i"] Cons.prems(1) inner show ?case by simp
qed

lemma frag_outer_loop_first:
  assumes "has_adj st = 0"
    and "\<forall>p q. p < length pre \<and> p < q \<and> q < length (pre @ c # rpre @ x # rpost) \<longrightarrow>
           \<not> mutually_adjacent h ((pre @ c # rpre @ x # rpost) ! p) ((pre @ c # rpre @ x # rpost) ! q)"
    and "mutually_adjacent h c x" and "\<forall>y\<in>set rpost. \<not> mutually_adjacent h c y"
  shows "frag_outer_loop h i (pre @ c # rpre @ x # rpost) st =
           \<lparr>current = Some (i + length pre), adjacent = Some (Suc (i + length pre + length rpre)),
            has_adj = (if right_adjacent h x c then 1 else 2)\<rparr>"
  using assms
proof (induction pre arbitrary: i)
  case Nil
  have "frag_inner_loop h i c (header_abs h c) (Suc i) (rpre @ x # rpost) st =
      \<lparr>current = Some i, adjacent = Some (Suc i + length rpre),
       has_adj = (if right_adjacent h x c then 1 else 2)\<rparr>"
    using Nil.prems(3,4) by (rule frag_inner_loop_last)
  with Nil.prems(1) show ?case by (simp add: frag_outer_loop_stop)
next
  case (Cons a pre)
  let ?tl = "pre @ c # rpre @ x # rpost"
  have "\<forall>y\<in>set ?tl. \<not> mutually_adjacent h a y"
  proof
    fix y assume "y \<in> set ?tl"
    then obtain k where k: "k < length ?tl" "?tl ! k = y" by (metis in_set_conv_nth)
    from Cons.prems(2) [rule_format, of 0 "Suc k"] k show "\<not> mutually_adjacent h a y" by simp
  qed
  then have inner: "frag_inner_loop h i a (header_abs h a) (Suc i) ?tl st = st"
    by (rule frag_inner_loop_none)
  have "\<forall>p q. p < length pre \<and> p < q \<and> q < length ?tl \<longrightarrow>
      \<not> mutually_adjacent h (?tl ! p) (?tl ! q)"
  proof (intro allI impI)
    fix p q assume "p < length pre \<and> p < q \<and> q < length ?tl"
    with Cons.prems(2) [rule_format, of "Suc p" "Suc q"]
    show "\<not> mutually_adjacent h (?tl ! p) (?tl ! q)" by simp
  qed
  from Cons.IH [OF Cons.prems(1) this Cons.prems(3,4), of "Suc i"] Cons.prems(1) inner
  show ?case by simp
qed


lemma free_before_some_alloc_iff:
  "free_before_some_alloc f alloc \<longleftrightarrow> (\<exists>a\<in>set alloc. f < a)"
  by (induction alloc) auto

lemma split_at_two_indices:
  assumes "i < j" and "j < length xs"
  shows "xs = take i xs @ xs ! i # take (j - Suc i) (drop (Suc i) xs) @ xs ! j # drop (Suc j) xs"
proof -
  from assms have "xs = take i xs @ xs ! i # drop (Suc i) xs"
    by (simp add: id_take_nth_drop)
  moreover from assms have "drop (Suc i) xs =
      take (j - Suc i) (drop (Suc i) xs) @ drop (Suc i) xs ! (j - Suc i) #
        drop (Suc (j - Suc i)) (drop (Suc i) xs)"
    by (intro id_take_nth_drop) simp
  moreover from assms have "drop (Suc i) xs ! (j - Suc i) = xs ! j" by simp
  moreover from assms have "drop (Suc (j - Suc i)) (drop (Suc i) xs) = drop (Suc j) xs" by simp
  ultimately show ?thesis by metis
qed

lemma frag_outer_loop_indices:
  assumes ij: "i < j" "j < length xs"
    and adj: "mutually_adjacent h (xs ! i) (xs ! j)"
    and first: "\<forall>p q. p < i \<and> p < q \<and> q < length xs \<longrightarrow> \<not> mutually_adjacent h (xs ! p) (xs ! q)"
    and last: "\<forall>q. j < q \<and> q < length xs \<longrightarrow> \<not> mutually_adjacent h (xs ! i) (xs ! q)"
  shows "frag_outer_loop h 0 xs \<lparr>current = None, adjacent = None, has_adj = 0\<rparr> =
           \<lparr>current = Some i, adjacent = Some j,
            has_adj = (if right_adjacent h (xs ! j) (xs ! i) then 1 else 2)\<rparr>"
proof -
  let ?pre = "take i xs" and ?rpre = "take (j - Suc i) (drop (Suc i) xs)"
    and ?rpost = "drop (Suc j) xs"
  have xs: "xs = ?pre @ xs ! i # ?rpre @ xs ! j # ?rpost"
    using ij by (rule split_at_two_indices)
  have len: "length ?pre = i" "length ?rpre = j - Suc i" using ij by simp_all
  have post: "\<forall>y\<in>set ?rpost. \<not> mutually_adjacent h (xs ! i) y"
  proof
    fix y assume "y \<in> set ?rpost"
    then obtain k where k: "k < length ?rpost" "?rpost ! k = y" by (metis in_set_conv_nth)
    then have "Suc j + k < length xs" "xs ! (Suc j + k) = y" by simp_all
    with last [rule_format, of "Suc j + k"] show "\<not> mutually_adjacent h (xs ! i) y" by simp
  qed
  have pre: "\<forall>p q. p < length ?pre \<and> p < q \<and>
        q < length (?pre @ xs ! i # ?rpre @ xs ! j # ?rpost) \<longrightarrow>
        \<not> mutually_adjacent h ((?pre @ xs ! i # ?rpre @ xs ! j # ?rpost) ! p)
             ((?pre @ xs ! i # ?rpre @ xs ! j # ?rpost) ! q)"
    using first len(1) xs by simp
  have "frag_outer_loop h 0 (?pre @ xs ! i # ?rpre @ xs ! j # ?rpost)
          \<lparr>current = None, adjacent = None, has_adj = 0\<rparr> =
        \<lparr>current = Some (0 + length ?pre), adjacent = Some (Suc (0 + length ?pre + length ?rpre)),
         has_adj = (if right_adjacent h (xs ! j) (xs ! i) then 1 else 2)\<rparr>"
    by (rule frag_outer_loop_first [OF _ pre adj post]) simp
  moreover have "Suc (0 + length ?pre + length ?rpre) = j" using ij len by simp
  ultimately show ?thesis using xs len(1) by simp
qed

lemma frag_inner_loop_ok:
  "scan_ok n st \<Longrightarrow> i < n \<Longrightarrow> j + length rest \<le> n \<Longrightarrow>
     scan_ok n (frag_inner_loop h i cb sc j rest st)"
proof (induction rest arbitrary: j st)
  case Nil
  then show ?case by simp
next
  case (Cons b rest)
  have j: "j < n" "Suc j + length rest \<le> n" using Cons.prems(3) by simp_all
  let ?st1 = "if b = cb + sc + 8 then \<lparr>current = Some i, adjacent = Some j, has_adj = 2\<rparr> else st"
  let ?st2 = "if cb = b + header_abs h b + 8
              then \<lparr>current = Some i, adjacent = Some j, has_adj = 1\<rparr> else ?st1"
  have "scan_ok n ?st2" using Cons.prems(1,2) j(1) by (simp add: scan_ok_def)
  from Cons.IH [OF this Cons.prems(2) j(2)] show ?case by (simp add: Let_def)
qed

lemma frag_outer_loop_ok:
  "scan_ok n st \<Longrightarrow> i + length xs \<le> n \<Longrightarrow> scan_ok n (frag_outer_loop h i xs st)"
proof (induction xs arbitrary: i st)
  case Nil
  then show ?case by simp
next
  case (Cons c rest)
  have i: "i < n" "Suc i + length rest \<le> n" using Cons.prems(2) by simp_all
  have "scan_ok n (frag_inner_loop h i c (header_abs h c) (Suc i) rest st)"
    using Cons.prems(1) i by (rule frag_inner_loop_ok)
  from Cons.IH [OF this i(2)] Cons.prems(1) show ?case by simp
qed

lemma is_fragmented_true:
  assumes "1 < length (free_list s)"
  shows "\<exists>s1. is_fragmented s = Inr (True, s1)"
proof -
  let ?st = "frag_outer_loop (mem s) 0 (free_list s) \<lparr>current = None, adjacent = None, has_adj = 0\<rparr>"
  have "scan_ok (length (free_list s)) ?st"
    by (rule frag_outer_loop_ok) (simp_all add: scan_ok_def)
  then consider "has_adj ?st = 0"
    | c a where "has_adj ?st = 1 \<or> has_adj ?st = 2" "current ?st = Some c" "adjacent ?st = Some a"
        "c < length (free_list s)" "a < length (free_list s)"
    by (auto simp: scan_ok_def)
  then show ?thesis
  proof cases
    case 1
    with assms show ?thesis
      by (auto simp: is_fragmented_def List_countNodes_def Let_def split: option.splits)
  next
    case 2
    with assms show ?thesis
      by (auto simp: is_fragmented_def List_countNodes_def Let_def merge_pair_def
          List_deleteNode_valid)
  qed
qed

text \<open>
  C6, as amended. \<^verbatim>\<open>is_fragmented\<close> returns false and changes nothing when the Free
  Registry is empty. With exactly one free chunk it returns true iff the address of
  that chunk is below the address of some allocated chunk, and changes nothing. With
  more than one free chunk it returns true; when no two free chunks are adjacent it
  changes nothing; otherwise, for the first chunk \<open>i\<close> in traversal order that has an
  adjacent chunk later in the list, it merges \<open>i\<close> with the last chunk \<open>j\<close> in
  traversal order that is adjacent to \<open>i\<close>: the header of the chunk at the lower
  address gets the byte of the sum of both sizes and 8, and the descriptor of the other
  chunk is removed.
\<close>

theorem is_fragmented_cases:
  "(free_list s = [] \<longrightarrow> is_fragmented s = Inr (False, s)) \<and>
   (free_list s = [f] \<longrightarrow> is_fragmented s = Inr (\<exists>a\<in>set (allocated_list s). f < a, s)) \<and>
   (1 < length (free_list s) \<longrightarrow> (\<exists>s1. is_fragmented s = Inr (True, s1))) \<and>
   (1 < length (free_list s) \<and>
    (\<forall>p q. p < q \<and> q < length (free_list s) \<longrightarrow>
       \<not> mutually_adjacent (mem s) (free_list s ! p) (free_list s ! q)) \<longrightarrow>
    is_fragmented s = Inr (True, s)) \<and>
   (i < j \<and> j < length (free_list s) \<and>
    mutually_adjacent (mem s) (free_list s ! i) (free_list s ! j) \<and>
    (\<forall>p q. p < i \<and> p < q \<and> q < length (free_list s) \<longrightarrow>
       \<not> mutually_adjacent (mem s) (free_list s ! p) (free_list s ! q)) \<and>
    (\<forall>q. j < q \<and> q < length (free_list s) \<longrightarrow>
       \<not> mutually_adjacent (mem s) (free_list s ! i) (free_list s ! q)) \<longrightarrow>
    is_fragmented s =
      Inr (True,
           if right_adjacent (mem s) (free_list s ! j) (free_list s ! i)
           then s\<lparr>free_list := take i (free_list s) @ drop (Suc i) (free_list s),
                  mem := store_header_char (mem s) (free_list s ! j)
                           (header_abs (mem s) (free_list s ! j) + 8 +
                            header_abs (mem s) (free_list s ! i))\<rparr>
           else s\<lparr>free_list := take j (free_list s) @ drop (Suc j) (free_list s),
                  mem := store_header_char (mem s) (free_list s ! i)
                           (header_abs (mem s) (free_list s ! i) + 8 +
                            header_abs (mem s) (free_list s ! j))\<rparr>))"
proof (intro conjI impI)
  assume "free_list s = []"
  then show "is_fragmented s = Inr (False, s)"
    by (simp add: is_fragmented_def List_countNodes_def)
next
  assume "free_list s = [f]"
  then show "is_fragmented s = Inr (\<exists>a\<in>set (allocated_list s). f < a, s)"
    by (simp add: is_fragmented_def List_countNodes_def free_before_some_alloc_iff)
next
  assume "1 < length (free_list s)"
  then show "\<exists>s1. is_fragmented s = Inr (True, s1)" by (rule is_fragmented_true)
next
  assume a: "1 < length (free_list s) \<and>
    (\<forall>p q. p < q \<and> q < length (free_list s) \<longrightarrow>
       \<not> mutually_adjacent (mem s) (free_list s ! p) (free_list s ! q))"
  then have "frag_outer_loop (mem s) 0 (free_list s)
      \<lparr>current = None, adjacent = None, has_adj = 0\<rparr> =
      \<lparr>current = None, adjacent = None, has_adj = 0\<rparr>"
    by (intro frag_outer_loop_none) simp_all
  moreover from a have "free_list s \<noteq> []" by auto
  ultimately show "is_fragmented s = Inr (True, s)"
    using a by (simp add: is_fragmented_def List_countNodes_def)
next
  assume a: "i < j \<and> j < length (free_list s) \<and>
    mutually_adjacent (mem s) (free_list s ! i) (free_list s ! j) \<and>
    (\<forall>p q. p < i \<and> p < q \<and> q < length (free_list s) \<longrightarrow>
       \<not> mutually_adjacent (mem s) (free_list s ! p) (free_list s ! q)) \<and>
    (\<forall>q. j < q \<and> q < length (free_list s) \<longrightarrow>
       \<not> mutually_adjacent (mem s) (free_list s ! i) (free_list s ! q))"
  then have ij: "i < j" "j < length (free_list s)" "i < length (free_list s)"
    "1 < length (free_list s)" by simp_all
  then have ne: "free_list s \<noteq> []" by auto
  have scan: "frag_outer_loop (mem s) 0 (free_list s)
      \<lparr>current = None, adjacent = None, has_adj = 0\<rparr> =
      \<lparr>current = Some i, adjacent = Some j,
       has_adj = (if right_adjacent (mem s) (free_list s ! j) (free_list s ! i) then 1 else 2)\<rparr>"
    using a by (intro frag_outer_loop_indices) simp_all
  show "is_fragmented s =
      Inr (True,
           if right_adjacent (mem s) (free_list s ! j) (free_list s ! i)
           then s\<lparr>free_list := take i (free_list s) @ drop (Suc i) (free_list s),
                  mem := store_header_char (mem s) (free_list s ! j)
                           (header_abs (mem s) (free_list s ! j) + 8 +
                            header_abs (mem s) (free_list s ! i))\<rparr>
           else s\<lparr>free_list := take j (free_list s) @ drop (Suc j) (free_list s),
                  mem := store_header_char (mem s) (free_list s ! i)
                           (header_abs (mem s) (free_list s ! i) + 8 +
                            header_abs (mem s) (free_list s ! j))\<rparr>)"
    using ij ne
    by (simp add: is_fragmented_def List_countNodes_def scan merge_pair_def Let_def
        List_deleteNode_valid)
qed


theorem is_fragmented_cases_witness:
  "\<exists>s0 s1 s2 s3.
     then_allocate (arena64 FIRST_FIT) 64 = Inr s0 \<and> free_list s0 = [] \<and>
     is_fragmented s0 = Inr (False, s0) \<and>
     arena64 FIRST_FIT = Inr s1 \<and> free_list s1 = [1008] \<and> allocated_list s1 = [] \<and>
     is_fragmented s1 = Inr (False, s1) \<and>
     then_deallocate three_chunks 1008 = Inr s2 \<and> free_list s2 = [1008, 1056] \<and>
     sizes s2 (free_list s2) = [8, 16] \<and> is_fragmented s2 = Inr (True, s2) \<and>
     double_neighbour = Inr s3 \<and> free_list s3 = [1020, 1044, 1008] \<and>
     sizes s3 (free_list s3) = [16, 28, 4] \<and>
     is_fragmented s3 =
       Inr (True, s3\<lparr>free_list := [1044, 1008], mem := store_header_char (mem s3) 1008 28\<rparr>)"
proof -
  have "map_sum id free_list (then_allocate (arena64 FIRST_FIT) 64) = Inr []"
    by code_simp
  then obtain s0 where s0: "then_allocate (arena64 FIRST_FIT) 64 = Inr s0" "free_list s0 = []"
    by (auto dest!: map_sum_id_eq_InrD)
  have r0: "is_fragmented s0 = Inr (False, s0)"
    using is_fragmented_cases [of s0] s0 by simp
  obtain s1 where s1: "arena64 FIRST_FIT = Inr s1" "free_list s1 = [1008]"
      "allocated_list s1 = []"
    by (simp add: arena64_state)
  have r1: "is_fragmented s1 = Inr (False, s1)"
    using is_fragmented_cases [of s1 1008] s1 by simp
  have "map_sum id (\<lambda>s. (free_list s, sizes s (free_list s)))
      (then_deallocate three_chunks 1008) = Inr ([1008, 1056], [8, 16])"
    by code_simp
  then obtain s2 where s2: "then_deallocate three_chunks 1008 = Inr s2"
      "free_list s2 = [1008, 1056]" "sizes s2 (free_list s2) = [8, 16]"
    by (auto dest!: map_sum_id_eq_InrD)
  have n2: "\<not> mutually_adjacent (mem s2) (free_list s2 ! p) (free_list s2 ! q)"
    if "p < q \<and> q < length (free_list s2)" for p q
  proof -
    from that s2 have "p = 0" "q = 1" by simp_all
    with s2 show ?thesis by (simp add: mutually_adjacent_def right_adjacent_def sizes_def)
  qed
  have "1 < length (free_list s2) \<and>
      (\<forall>p q. p < q \<and> q < length (free_list s2) \<longrightarrow>
         \<not> mutually_adjacent (mem s2) (free_list s2 ! p) (free_list s2 ! q))"
    using n2 by (simp add: s2(2))
  with is_fragmented_cases [of s2] have r2: "is_fragmented s2 = Inr (True, s2)"
    by blast
  have "map_sum id (\<lambda>s. (free_list s, sizes s (free_list s))) double_neighbour =
      Inr ([1020, 1044, 1008], [16, 28, 4])"
    by code_simp
  then obtain s3 where s3: "double_neighbour = Inr s3" "free_list s3 = [1020, 1044, 1008]"
      "sizes s3 (free_list s3) = [16, 28, 4]"
    by (auto dest!: map_sum_id_eq_InrD)
  then have h3: "header_abs (mem s3) 1020 = 16" "header_abs (mem s3) 1044 = 28"
      "header_abs (mem s3) 1008 = 4"
    by (simp_all add: sizes_def)
  have a3: "right_adjacent (mem s3) 1008 1020" "mutually_adjacent (mem s3) 1020 1008"
    using h3 by (simp_all add: mutually_adjacent_def right_adjacent_def)
  have "(0::nat) < 2 \<and> 2 < length (free_list s3) \<and>
      mutually_adjacent (mem s3) (free_list s3 ! 0) (free_list s3 ! 2) \<and>
      (\<forall>p q. p < 0 \<and> p < q \<and> q < length (free_list s3) \<longrightarrow>
         \<not> mutually_adjacent (mem s3) (free_list s3 ! p) (free_list s3 ! q)) \<and>
      (\<forall>q. 2 < q \<and> q < length (free_list s3) \<longrightarrow>
         \<not> mutually_adjacent (mem s3) (free_list s3 ! 0) (free_list s3 ! q))"
    using a3 by (auto simp: s3(2))
  with is_fragmented_cases [of s3 _ 0 2] have "is_fragmented s3 =
      Inr (True,
           if right_adjacent (mem s3) (free_list s3 ! 2) (free_list s3 ! 0)
           then s3\<lparr>free_list := take 0 (free_list s3) @ drop (Suc 0) (free_list s3),
                   mem := store_header_char (mem s3) (free_list s3 ! 2)
                            (header_abs (mem s3) (free_list s3 ! 2) + 8 +
                             header_abs (mem s3) (free_list s3 ! 0))\<rparr>
           else s3\<lparr>free_list := take 2 (free_list s3) @ drop (Suc 2) (free_list s3),
                   mem := store_header_char (mem s3) (free_list s3 ! 0)
                            (header_abs (mem s3) (free_list s3 ! 0) + 8 +
                             header_abs (mem s3) (free_list s3 ! 2))\<rparr>)"
    by blast
  then have r3: "is_fragmented s3 =
      Inr (True, s3\<lparr>free_list := [1044, 1008], mem := store_header_char (mem s3) 1008 28\<rparr>)"
    using a3 h3 by (simp add: s3(2))
  from s0 r0 s1 r1 s2 r2 s3 r3 show ?thesis by blast
qed

text \<open>
  The claim as it was stated fails on \<open>double_neighbour\<close>: the first adjacent pair in
  traversal order is (1020, 1044), since \<open>1020 + 16 + 8 = 1044\<close>, but the call leaves
  1044 as it was and merges 1020 into 1008, the last chunk of the list.
\<close>

theorem is_fragmented_merges_last_neighbour_counterexample:
  "map_sum id (\<lambda>s. (free_list s, sizes s (free_list s),
                    right_adjacent (mem s) 1020 1044, right_adjacent (mem s) 1008 1020))
     double_neighbour = Inr ([1020, 1044, 1008], [16, 28, 4], True, True) \<and>
   map_sum id (\<lambda>(b, s). (b, free_list s, sizes s (free_list s)))
     (and_then double_neighbour is_fragmented) = Inr (True, [1044, 1008], [28, 28])"
  by code_simp

section \<open>The width of the header\<close>
















section \<open>A compaction that does not end\<close>

lemma is_fragmented_no_adjacent:
  assumes "1 < length (free_list s)"
    and "\<forall>p q. p < q \<and> q < length (free_list s) \<longrightarrow>
           \<not> mutually_adjacent (mem s) (free_list s ! p) (free_list s ! q)"
  shows "is_fragmented s = Inr (True, s)"
proof -
  from assms(2) have "frag_outer_loop (mem s) 0 (free_list s)
      \<lparr>current = None, adjacent = None, has_adj = 0\<rparr> =
      \<lparr>current = None, adjacent = None, has_adj = 0\<rparr>"
    by (intro frag_outer_loop_none) simp_all
  moreover from assms(1) have "free_list s \<noteq> []" by auto
  ultimately show ?thesis
    using assms(1) by (simp add: is_fragmented_def List_countNodes_def)
qed

lemma leftmost_free_loop_in_set:
  "snd (leftmost_free_loop lf i rest) \<in> insert (snd lf) (set rest)"
proof (induction rest arbitrary: lf i)
  case Nil
  then show ?case by simp
next
  case (Cons b rest)
  have "snd (leftmost_free_loop (if b < snd lf then (i, b) else lf) (Suc i) rest)
      \<in> insert (snd (if b < snd lf then (i, b) else lf)) (set rest)"
    by (rule Cons.IH)
  then show ?case by (auto split: if_splits)
qed

lemma compact_step_no_mover:
  assumes "allocated_list s = a # al" and "free_list s \<noteq> []" and "\<forall>f\<in>set (free_list s). a \<le> f"
  shows "compact_step s dest = Inr (s, dest)"
proof -
  from assms(2) obtain head_block rest where fl: "free_list s = head_block # rest"
    by (cases "free_list s") auto
  have "snd (leftmost_free_loop (0, head_block) 1 rest) \<in> set (free_list s)"
    using leftmost_free_loop_in_set [of "(0, head_block)" 1 rest] fl by simp
  with assms(3) have "a \<le> snd (leftmost_free_loop (0, head_block) 1 rest)" by blast
  then have "find_adjacent (allocated_list s) (snd (leftmost_free_loop (0, head_block) 1 rest)) = None"
    using assms(1) by (simp add: find_adjacent_def)
  with fl show ?thesis by (simp add: compact_step_def Let_def)
qed

lemma compact_loop_stuck:
  assumes "is_fragmented s = Inr (True, s)" and "compact_step s dest = Inr (s, dest)"
  shows "compact_loop fuel s dest = None"
  using assms by (induction fuel) simp_all

text \<open>
  With some memory used and some available, at least two free chunks no two of which
  are adjacent, and the head of the allocated list at or below every free chunk,
  \<^verbatim>\<open>is_fragmented\<close> returns true without a change and the loop body finds no chunk
  to move: the loop of \<^verbatim>\<open>compact_allocation\<close> does not end, whatever the fuel.
\<close>

theorem compact_allocation_never_returns:
  assumes "stat_used_memory s \<noteq> 0" and "stat_available_memory s \<noteq> 0"
    and "allocated_list s = a # al" and "1 < length (free_list s)"
    and "\<forall>p q. p < q \<and> q < length (free_list s) \<longrightarrow>
           \<not> mutually_adjacent (mem s) (free_list s ! p) (free_list s ! q)"
    and "\<forall>f\<in>set (free_list s). a \<le> f"
  shows "compact_allocation fuel s before0 after0 = None"
proof -
  from assms(4) have ne: "free_list s \<noteq> []" by auto
  have "compact_loop fuel s None = None"
    using is_fragmented_no_adjacent [OF assms(4,5)] compact_step_no_mover [OF assms(3) ne assms(6)]
    by (rule compact_loop_stuck)
  with assms(1,2,3) ne show ?thesis by (simp add: compact_allocation_def Let_def)
qed

theorem compact_allocation_never_returns_witness:
  "\<exists>s. stuck_layout = Inr s \<and> free_list s = [1020, 1052] \<and> sizes s (free_list s) = [8, 20] \<and>
       allocated_list s = [1008, 1036] \<and> stat_used_memory s = 12 \<and> stat_available_memory s = 28 \<and>
       (\<forall>fuel. compact_allocation fuel s (\<lambda>i. 0) (\<lambda>i. 0) = None)"
proof -
  have "map_sum id (\<lambda>s. (free_list s, sizes s (free_list s), allocated_list s,
      stat_used_memory s, stat_available_memory s)) stuck_layout =
      Inr ([1020, 1052], [8, 20], [1008, 1036], 12, 28)"
    by code_simp
  then obtain s where s: "stuck_layout = Inr s" "free_list s = [1020, 1052]"
      "sizes s (free_list s) = [8, 20]" "allocated_list s = [1008, 1036]"
      "stat_used_memory s = 12" "stat_available_memory s = 28"
    by (auto dest!: map_sum_id_eq_InrD)
  have n: "\<forall>p q. p < q \<and> q < length (free_list s) \<longrightarrow>
      \<not> mutually_adjacent (mem s) (free_list s ! p) (free_list s ! q)"
  proof (intro allI impI)
    fix p q assume "p < q \<and> q < length (free_list s)"
    with s(2) have "p = 0" "q = 1" by simp_all
    with s(2,3) show "\<not> mutually_adjacent (mem s) (free_list s ! p) (free_list s ! q)"
      by (simp add: mutually_adjacent_def right_adjacent_def sizes_def)
  qed
  have "compact_allocation fuel s (\<lambda>i. 0) (\<lambda>i. 0) = None" for fuel
    using compact_allocation_never_returns [of s 1008 "[1036]" fuel] s n by simp
  with s show ?thesis by blast
qed


section \<open>The fresh arena\<close>

text \<open>
  \<^verbatim>\<open>initialize_allocator\<close> rounds the size up to the next multiple of 64, leaves one
  free chunk at the first payload address and no allocated chunk, and on this state
  \<^verbatim>\<open>is_fragmented\<close> returns false and changes nothing.
\<close>

theorem fresh_arena_one_chunk_not_fragmented:
  assumes "initialize_allocator h0 (Some ptr) sz alg = Inr s"
  shows "0 < sz \<and> arena_size s = ((sz + 63) div 64) * 64 \<and> sz \<le> arena_size s \<and>
         arena_size s < sz + 64 \<and> memory s = ptr + 8 \<and> free_list s = [ptr + 8] \<and>
         allocated_list s = [] \<and> stat_available_memory s = arena_size s \<and>
         stat_used_memory s = 0 \<and> is_fragmented s = Inr (False, s)"
proof -
  from assms have pos: "0 < sz" by (auto simp: initialize_allocator_def split: if_splits)
  with assms have s: "s = \<lparr>aalgorithm = alg, arena_size = ((sz + 63) div 64) * 64,
      memory = ptr + 8, free_list = [ptr + 8], allocated_list = [],
      stat_available_memory = ((sz + 63) div 64) * 64, stat_used_memory = 0,
      mem = store_header_size_t (memset0 h0 ptr (((sz + 63) div 64) * 64 + 8)) (ptr + 8)
              (((sz + 63) div 64) * 64)\<rparr>"
    by (simp add: initialize_allocator_def Let_def)
  have r: "sz \<le> ((sz + 63) div 64) * 64" "((sz + 63) div 64) * 64 < sz + 64" by presburger+
  have f: "is_fragmented s = Inr (False, s)"
    by (simp add: s is_fragmented_def List_countNodes_def)
  from pos r f show ?thesis by (simp add: s)
qed

theorem fresh_arena_one_chunk_not_fragmented_witness:
  "\<exists>s. initialize_allocator (\<lambda>a. 0) (Some 1000) 100 BEST_FIT = Inr s \<and> arena_size s = 128 \<and>
       free_list s = [1008] \<and> allocated_list s = [] \<and> is_fragmented s = Inr (False, s)"
proof -
  obtain s where s: "initialize_allocator (\<lambda>a. 0) (Some 1000) 100 BEST_FIT = Inr s"
    by (simp add: initialize_allocator_def)
  from fresh_arena_one_chunk_not_fragmented [OF s] s show ?thesis by simp
qed

end
